theory Spec2Isabelle
  imports Main "HOL-Library.Multiset"
begin

section \<open>Re-Sizer: the per-file transform and the batch coordinator\<close>

text \<open>
  A shallow embedding of \<^verbatim>\<open>ReSizer/resizer_app.py\<close>: \<^verbatim>\<open>ImageProcessor.process_image\<close>,
  \<^verbatim>\<open>ImageProcessor.find_images\<close> and \<^verbatim>\<open>ProcessingThread.run\<close>. The image library
  (PIL), the file system and the thread pool are outside the program; their answers are
  parameters of the model, and every call that can raise returns a sum whose left
  summand is the exception.
\<close>

subsection \<open>Exceptions and the rendering of numbers\<close>

text \<open>
  The errors raised by PIL, \<^verbatim>\<open>pathlib\<close> and \<^verbatim>\<open>os\<close> are all subclasses of Python's
  \<^verbatim>\<open>Exception\<close>; the model keeps of an exception what the program reads, \<^verbatim>\<open>str(e)\<close>.
\<close>

datatype exn = Exception (str: string)

fun str_nat :: "nat \<Rightarrow> string" where
  "str_nat n =
     (if n < 10 then [''0123456789'' ! n]
      else str_nat (n div 10) @ [''0123456789'' ! (n mod 10)])"

declare str_nat.simps [simp del]

definition str_int :: "int \<Rightarrow> string" where
  "str_int i = (if i < 0 then CHR ''-'' # str_nat (nat (- i)) else str_nat (nat i))"

subsection \<open>Paths\<close>

text \<open>
  A \<^verbatim>\<open>pathlib.Path\<close> is its parent components and its final component, the name; the
  name of a root or of the empty path is empty. Equality is that of the components
  (the POSIX flavour). \<^verbatim>\<open>suffix\<close> and \<^verbatim>\<open>with_suffix\<close> follow \<^verbatim>\<open>pathlib.PurePath\<close>.
\<close>

datatype path = Path (parent: "string list") (name: string)

definition rfind :: "char \<Rightarrow> string \<Rightarrow> nat option" where
  "rfind c s =
     (case filter (\<lambda>i. s ! i = c) (rev [0..<length s]) of
        [] \<Rightarrow> None
      | i # _ \<Rightarrow> Some i)"

definition suffix_of :: "path \<Rightarrow> string" where
  "suffix_of p =
     (case rfind CHR ''.'' (name p) of
        None \<Rightarrow> []
      | Some i \<Rightarrow> if 0 < i \<and> i + 1 < length (name p) then drop i (name p) else [])"

definition with_suffix :: "path \<Rightarrow> string \<Rightarrow> exn + path" where
  "with_suffix p sfx =
     (if CHR ''/'' \<in> set sfx then Inl (Exception (''Invalid suffix '' @ sfx))
      else if (sfx \<noteq> [] \<and> hd sfx \<noteq> CHR ''.'') \<or> sfx = ''.''
        then Inl (Exception (''Invalid suffix '' @ sfx))
      else if name p = [] then Inl (Exception ''path has an empty name'')
      else if suffix_of p = [] then Inr (Path (parent p) (name p @ sfx))
      else Inr (Path (parent p)
                  (take (length (name p) - length (suffix_of p)) (name p) @ sfx)))"

definition char_lower :: "char \<Rightarrow> char" where
  "char_lower c =
     (case map_of (zip ''ABCDEFGHIJKLMNOPQRSTUVWXYZ'' ''abcdefghijklmnopqrstuvwxyz'') c of
        None \<Rightarrow> c
      | Some l \<Rightarrow> l)"

definition lower :: "string \<Rightarrow> string" where
  "lower s = map char_lower s"

subsection \<open>Python's float arithmetic on the image dimensions\<close>

text \<open>
  \<^verbatim>\<open>int((height / width) * MAX_DIMENSION)\<close> is computed in IEEE 754 binary64: the true
  division of two ints is correctly rounded, the product with \<^verbatim>\<open>3840.0\<close> is rounded
  again, and \<^verbatim>\<open>int\<close> truncates. Only non-negative values occur, so a double is a
  mantissa and a binary exponent, standing for \<open>mantissa * 2 ^ exponent\<close>. Rounding is
  to nearest, ties to even, with 53 significant bits and the smallest quantum
  \<open>2 ^ -1074\<close>; no value here exceeds 3840, so overflow does not arise.
\<close>

datatype double = Double (mantissa: nat) (exponent: int)

fun bit_length :: "nat \<Rightarrow> nat" where
  "bit_length n = (if n = 0 then 0 else Suc (bit_length (n div 2)))"

declare bit_length.simps [simp del]

definition round_ratio :: "nat \<Rightarrow> nat \<Rightarrow> double" where
  "round_ratio n d =
     (if n = 0 then Double 0 0
      else
        let c = int (bit_length n) - int (bit_length d);
            lg = (if (if 0 \<le> c then d * 2 ^ nat c \<le> n else d \<le> n * 2 ^ nat (- c))
                  then c else c - 1);
            e = max (lg - 52) (- 1074);
            num = (if 0 \<le> e then n else n * 2 ^ nat (- e));
            den = (if 0 \<le> e then d * 2 ^ nat e else d);
            m0 = num div den;
            r = num mod den;
            m = (if 2 * r < den then m0
                 else if den < 2 * r then m0 + 1
                 else if even m0 then m0 else m0 + 1)
        in Double m e)"

definition ZeroDivisionError :: exn where
  "ZeroDivisionError = Exception ''division by zero''"

definition int_truediv :: "nat \<Rightarrow> nat \<Rightarrow> exn + double" where
  "int_truediv a b = (if b = 0 then Inl ZeroDivisionError else Inr (round_ratio a b))"

definition float_mul_int :: "double \<Rightarrow> nat \<Rightarrow> double" where
  "float_mul_int x k =
     (if 0 \<le> exponent x then round_ratio (mantissa x * k * 2 ^ nat (exponent x)) 1
      else round_ratio (mantissa x * k) (2 ^ nat (- exponent x)))"

definition int_of_float :: "double \<Rightarrow> nat" where
  "int_of_float x =
     (if 0 \<le> exponent x then mantissa x * 2 ^ nat (exponent x)
      else mantissa x div 2 ^ nat (- exponent x))"

subsection \<open>The image library\<close>

record image =
  width :: nat
  height :: nat
  mode :: string

record save_kwargs =
  format :: string
  lossless :: bool
  quality :: nat
  exif :: "string option"

text \<open>
  What the outside world answers to each call of \<^verbatim>\<open>process_image\<close>: \<^verbatim>\<open>Image.open\<close>,
  \<^verbatim>\<open>img.info.get('exif')\<close>, \<^verbatim>\<open>img.resize\<close>, \<^verbatim>\<open>img.convert\<close>, \<^verbatim>\<open>img.save\<close>,
  \<^verbatim>\<open>Path.exists\<close> and \<^verbatim>\<open>Path.unlink\<close>. A call that returns nothing answers with the
  exception it raised, if any.
\<close>

record image_codec =
  img_open :: "path \<Rightarrow> exn + image"
  img_exif :: "image \<Rightarrow> exn + string option"
  img_resize :: "image \<Rightarrow> nat \<times> nat \<Rightarrow> exn + image"
  img_convert :: "image \<Rightarrow> string \<Rightarrow> exn + image"
  img_save :: "image \<Rightarrow> path \<Rightarrow> save_kwargs \<Rightarrow> exn option"
  path_exists :: "path \<Rightarrow> exn + bool"
  path_unlink :: "path \<Rightarrow> exn option"

text \<open>The calls that change the file system, in the order they are made.\<close>

datatype fs_call = Save path image save_kwargs | Unlink path

subsection \<open>\<^verbatim>\<open>ImageProcessor.process_image\<close>\<close>

definition MAX_DIMENSION :: nat where
  "MAX_DIMENSION = 3840"

definition arrow :: string where
  "arrow = [CHR 0xC3, CHR 0xA2, CHR 0xE2, CHR 0x80, CHR 0xA0, CHR 0xE2, CHR 0x80, CHR 0x99]"

definition skipped_message :: "nat \<Rightarrow> path \<Rightarrow> string" where
  "skipped_message max_dim p = ''Skipped (already '' @ str_nat max_dim @ ''px): '' @ name p"

definition resized_message :: "nat \<Rightarrow> nat \<Rightarrow> path \<Rightarrow> string" where
  "resized_message max_dim new_max p =
     ''Resized '' @ str_nat max_dim @ ''px '' @ arrow @ '' '' @ str_nat new_max @ ''px: '' @ name p"

definition error_message :: "path \<Rightarrow> exn \<Rightarrow> string" where
  "error_message p e = ''Error processing '' @ name p @ '': '' @ str e"

text \<open>Lines 66 to 71: the new dimensions.\<close>

definition new_dimensions :: "nat \<Rightarrow> nat \<Rightarrow> exn + nat \<times> nat" where
  "new_dimensions w h =
     (if h < w then
        (case int_truediv h w of
           Inl e \<Rightarrow> Inl e
         | Inr q \<Rightarrow> Inr (MAX_DIMENSION, int_of_float (float_mul_int q MAX_DIMENSION)))
      else
        (case int_truediv w h of
           Inl e \<Rightarrow> Inl e
         | Inr q \<Rightarrow> Inr (int_of_float (float_mul_int q MAX_DIMENSION), MAX_DIMENSION)))"

text \<open>Lines 76 to 81: the mode of the resized image.\<close>

definition convert_mode :: "image_codec \<Rightarrow> image \<Rightarrow> exn + image" where
  "convert_mode cd r =
     (if mode r \<in> {''RGBA'', ''LA'', ''P''} then Inr r
      else if mode r \<noteq> ''RGB'' then img_convert cd r ''RGB''
      else Inr r)"

text \<open>Lines 84 to 102: the output path, the write, the deletion of the original.\<close>

definition write_output ::
  "image_codec \<Rightarrow> path \<Rightarrow> image \<Rightarrow> string option \<Rightarrow> nat \<Rightarrow> nat \<times> nat \<Rightarrow> (exn + bool \<times> string) \<times> fs_call list"
where
  "write_output cd p r exif_data max_dim new =
     (case with_suffix p ''.webp'' of
        Inl e \<Rightarrow> (Inl e, [])
      | Inr output_path \<Rightarrow>
          let kw = \<lparr>format = ''WEBP'', lossless = False, quality = 85,
                    exif = (if exif_data \<noteq> None \<and> exif_data \<noteq> Some [] then exif_data else None)\<rparr>;
              done = Inr (True, resized_message max_dim (max (fst new) (snd new)) p)
          in (case img_save cd r output_path kw of
                Some e \<Rightarrow> (Inl e, [Save output_path r kw])
              | None \<Rightarrow>
                  if output_path \<noteq> p then
                    (case path_exists cd output_path of
                       Inl e \<Rightarrow> (Inl e, [Save output_path r kw])
                     | Inr False \<Rightarrow> (done, [Save output_path r kw])
                     | Inr True \<Rightarrow>
                         (case path_unlink cd p of
                            Some e \<Rightarrow> (Inl e, [Save output_path r kw, Unlink p])
                          | None \<Rightarrow> (done, [Save output_path r kw, Unlink p])))
                  else (done, [Save output_path r kw])))"

text \<open>The body of the \<^verbatim>\<open>try\<close>, lines 49 to 102.\<close>

definition process_image_body :: "image_codec \<Rightarrow> path \<Rightarrow> (exn + bool \<times> string) \<times> fs_call list" where
  "process_image_body cd p =
     (case img_open cd p of
        Inl e \<Rightarrow> (Inl e, [])
      | Inr img \<Rightarrow>
          let max_dim = max (width img) (height img) in
          if max_dim \<le> MAX_DIMENSION then (Inr (False, skipped_message max_dim p), [])
          else
            let exif_data = (case img_exif cd img of Inl _ \<Rightarrow> None | Inr x \<Rightarrow> x) in
            (case new_dimensions (width img) (height img) of
               Inl e \<Rightarrow> (Inl e, [])
             | Inr new \<Rightarrow>
                 (case img_resize cd img new of
                    Inl e \<Rightarrow> (Inl e, [])
                  | Inr img_resized \<Rightarrow>
                      (case convert_mode cd img_resized of
                         Inl e \<Rightarrow> (Inl e, [])
                       | Inr r \<Rightarrow> write_output cd p r exif_data max_dim new))))"

text \<open>
  The whole function: \<^verbatim>\<open>except Exception as e\<close> turns an exception of the body into
  the pair \<^verbatim>\<open>(False, "Error processing ...")\<close>. The result is a sum so that "no
  exception leaves the call" is a statement about the function and not about its type.
\<close>

definition process_image :: "image_codec \<Rightarrow> path \<Rightarrow> (exn + bool \<times> string) \<times> fs_call list" where
  "process_image cd p =
     (case process_image_body cd p of
        (Inl e, calls) \<Rightarrow> (Inr (False, error_message p e), calls)
      | (Inr res, calls) \<Rightarrow> (Inr res, calls))"

subsection \<open>\<^verbatim>\<open>ImageProcessor.find_images\<close>\<close>

text \<open>
  The world the batch runs in: whether \<^verbatim>\<open>pillow_heif\<close> could be imported, what
  \<^verbatim>\<open>rglob('*')\<close> lists, which entries are files, the number of CPUs, whether
  \<^verbatim>\<open>executor.submit\<close> raises, when the future of each image completes, the image
  library, the value of \<^verbatim>\<open>is_cancelled\<close> read at each check of the loop (numbered by
  the results processed so far; another thread sets the flag), and the text of
  \<^verbatim>\<open>traceback.format_exc()\<close>.
\<close>

record world =
  HEIC_SUPPORT :: bool
  rglob :: "path \<Rightarrow> exn + path list"
  is_file :: "path \<Rightarrow> bool"
  cpu_count :: "nat option"
  submit_error :: "path \<Rightarrow> exn option"
  finish_time :: "path \<Rightarrow> nat"
  codec :: image_codec
  is_cancelled :: "nat \<Rightarrow> bool"
  format_exc :: "exn \<Rightarrow> string"

definition SUPPORTED_FORMATS :: "world \<Rightarrow> string set" where
  "SUPPORTED_FORMATS w =
     {''.jpg'', ''.jpeg'', ''.png'', ''.tiff'', ''.tif'', ''.bmp''}
       \<union> (if HEIC_SUPPORT w then {''.heic''} else {})"

definition find_images :: "world \<Rightarrow> path \<Rightarrow> exn + path list" where
  "find_images w root_folder =
     (case rglob w root_folder of
        Inl e \<Rightarrow> Inl e
      | Inr entries \<Rightarrow>
          Inr (filter (\<lambda>file_path. is_file w file_path
                         \<and> lower (suffix_of file_path) \<in> SUPPORTED_FORMATS w) entries))"

subsection \<open>\<^verbatim>\<open>ProcessingThread\<close>\<close>

text \<open>
  The three signals of the thread, and its calls on the thread pool:
  \<^verbatim>\<open>executor.submit\<close>, \<^verbatim>\<open>executor.shutdown(wait=False, cancel_futures=True)\<close> and the
  \<^verbatim>\<open>shutdown(wait=True)\<close> that leaving the \<^verbatim>\<open>with\<close> block performs.
\<close>

datatype action =
    Log string
  | Progress nat nat
  | Finished nat nat nat
  | Submit path
  | CancelFutures
  | ShutdownWait

record processing_thread =
  folder_path :: path
  max_workers :: int

definition str_path :: "path \<Rightarrow> string" where
  "str_path p =
     (if parent p = [] \<and> name p = [] then ''.''
      else foldr (\<lambda>d s. d @ ''/'' @ s) (parent p) (name p))"

text \<open>\<^verbatim>\<open>__init__\<close>: \<^verbatim>\<open>max_workers or min(32, (os.cpu_count() or 1) * 2)\<close>.\<close>

definition init :: "world \<Rightarrow> path \<Rightarrow> int option \<Rightarrow> processing_thread" where
  "init w folder mw =
     \<lparr>folder_path = folder,
      max_workers =
        (if mw \<noteq> None \<and> mw \<noteq> Some 0 then the mw
         else min 32 (int ((if cpu_count w \<noteq> None \<and> cpu_count w \<noteq> Some 0
                            then the (cpu_count w) else 1) * 2)))\<rparr>"

record counters =
  processed_count :: nat
  total_resized :: nat
  total_skipped :: nat

text \<open>
  \<^verbatim>\<open>future.result()\<close> is what the call of \<^verbatim>\<open>process_image\<close> submitted for the image
  returned or raised.
\<close>

definition future_result :: "world \<Rightarrow> path \<Rightarrow> exn + bool \<times> string" where
  "future_result w img = fst (process_image (codec w) img)"

text \<open>
  \<^verbatim>\<open>as_completed\<close> yields every submitted future once, in the order of completion.
\<close>

definition as_completed :: "world \<Rightarrow> path list \<Rightarrow> path list" where
  "as_completed w images = sort_key (finish_time w) images"

text \<open>The dict comprehension of lines 153 to 156; a raising \<^verbatim>\<open>submit\<close> ends it.\<close>

fun submit_all :: "world \<Rightarrow> path list \<Rightarrow> action list \<times> exn option" where
  "submit_all w [] = ([], None)"
| "submit_all w (img # rest) =
     (case submit_error w img of
        Some e \<Rightarrow> ([], Some e)
      | None \<Rightarrow> (case submit_all w rest of (acts, r) \<Rightarrow> (Submit img # acts, r)))"

text \<open>Lines 165 to 181: one result is counted, logged and reported.\<close>

definition handle_result :: "world \<Rightarrow> nat \<Rightarrow> path \<Rightarrow> counters \<Rightarrow> action list \<times> counters" where
  "handle_result w total_files future c =
     (let c1 = c\<lparr>processed_count := processed_count c + 1\<rparr> in
      case future_result w future of
        Inr (was_resized, message) \<Rightarrow>
          ([Log message, Progress (processed_count c1) total_files],
           if was_resized then c1\<lparr>total_resized := total_resized c1 + 1\<rparr>
           else c1\<lparr>total_skipped := total_skipped c1 + 1\<rparr>)
      | Inl e \<Rightarrow>
          ([Log (''Error: '' @ str e), Progress (processed_count c1) total_files],
           c1\<lparr>total_skipped := total_skipped c1 + 1\<rparr>))"

text \<open>Lines 159 to 181: the loop over the completed futures.\<close>

fun collect :: "world \<Rightarrow> nat \<Rightarrow> path list \<Rightarrow> counters \<Rightarrow> action list \<times> counters" where
  "collect w total_files [] c = ([], c)"
| "collect w total_files (future # rest) c =
     (if is_cancelled w (processed_count c)
      then ([CancelFutures, Log ''Processing cancelled.''], c)
      else
        (case handle_result w total_files future c of
           (acts, c1) \<Rightarrow>
             (case collect w total_files rest c1 of
                (acts', c2) \<Rightarrow> (acts @ acts', c2))))"

text \<open>
  The body of the \<^verbatim>\<open>try\<close> of \<^verbatim>\<open>run\<close>, lines 133 to 184: what it emitted, and the
  exception that left it, if any. \<^verbatim>\<open>ThreadPoolExecutor\<close> raises \<^verbatim>\<open>ValueError\<close> for
  \<^verbatim>\<open>max_workers <= 0\<close>.
\<close>

definition run_body :: "world \<Rightarrow> processing_thread \<Rightarrow> action list \<times> exn option" where
  "run_body w t =
     (let scanning = [Log (''Scanning folder: '' @ str_path (folder_path t))] in
      case find_images w (folder_path t) of
        Inl e \<Rightarrow> (scanning, Some e)
      | Inr images \<Rightarrow>
          let total_files = length images in
          if total_files = 0
          then (scanning @ [Log ''No supported images found.'', Finished 0 0 0], None)
          else
            let started = scanning @
                  [Log (''Found '' @ str_nat total_files @ '' images. Starting processing...''),
                   Log (''Using '' @ str_int (max_workers t) @ '' worker threads.'')]
            in
            if max_workers t \<le> 0
            then (started, Some (Exception ''max_workers must be greater than 0''))
            else
              (case submit_all w images of
                 (subs, Some e) \<Rightarrow> (started @ subs @ [ShutdownWait], Some e)
               | (subs, None) \<Rightarrow>
                   (case collect w total_files (as_completed w images)
                           \<lparr>processed_count = 0, total_resized = 0, total_skipped = 0\<rparr> of
                      (acts, c) \<Rightarrow>
                        (started @ subs @ acts @
                           [ShutdownWait,
                            Finished (processed_count c) (total_resized c) (total_skipped c)],
                         None))))"

text \<open>\<^verbatim>\<open>run\<close>, lines 130 to 189, with the handler of the fatal error.\<close>

definition run :: "world \<Rightarrow> processing_thread \<Rightarrow> action list" where
  "run w t =
     (case run_body w t of
        (acts, None) \<Rightarrow> acts
      | (acts, Some e) \<Rightarrow>
          acts @ [Log (''Fatal error: '' @ str e), Log (format_exc w e), Finished 0 0 0])"

subsection \<open>Reading a run\<close>

fun is_Finished :: "action \<Rightarrow> bool" where
  "is_Finished (Finished _ _ _) = True"
| "is_Finished _ = False"

fun progress_events :: "action list \<Rightarrow> (nat \<times> nat) list" where
  "progress_events [] = []"
| "progress_events (Progress c n # acts) = (c, n) # progress_events acts"
| "progress_events (_ # acts) = progress_events acts"

fun logged :: "action list \<Rightarrow> string list" where
  "logged [] = []"
| "logged (Log s # acts) = s # logged acts"
| "logged (_ # acts) = logged acts"

text \<open>The line that the loop logs for the future of an image.\<close>

definition result_line :: "world \<Rightarrow> path \<Rightarrow> string" where
  "result_line w img =
     (case future_result w img of Inr (_, message) \<Rightarrow> message | Inl e \<Rightarrow> ''Error: '' @ str e)"

definition was_resized :: "world \<Rightarrow> path \<Rightarrow> bool" where
  "was_resized w img = (case future_result w img of Inr (b, _) \<Rightarrow> b | Inl _ \<Rightarrow> False)"

text \<open>
  The three outcomes of \<^verbatim>\<open>process_image\<close>, by the \<^verbatim>\<open>return\<close> that produced them: line
  102 (resized), line 56 (skipped), line 105 (an exception was caught).
\<close>

datatype outcome = Transformed | Skipped | Failed

definition outcome_of :: "image_codec \<Rightarrow> path \<Rightarrow> outcome" where
  "outcome_of cd p =
     (case fst (process_image_body cd p) of
        Inl _ \<Rightarrow> Failed
      | Inr (True, _) \<Rightarrow> Transformed
      | Inr (False, _) \<Rightarrow> Skipped)"

text \<open>The counters of the loop at each emission of \<^verbatim>\<open>progress_update\<close>.\<close>

fun loop_states :: "world \<Rightarrow> nat \<Rightarrow> path list \<Rightarrow> counters \<Rightarrow> counters list" where
  "loop_states w total_files [] c = []"
| "loop_states w total_files (future # rest) c =
     (if is_cancelled w (processed_count c) then []
      else
        (case handle_result w total_files future c of
           (acts, c1) \<Rightarrow> c1 # loop_states w total_files rest c1))"

text \<open>
  The futures that the loop processes before it sees the flag set (all of them, if it
  never does), counted from the number of results already processed.
\<close>

fun collected :: "world \<Rightarrow> nat \<Rightarrow> path list \<Rightarrow> path list" where
  "collected w n [] = []"
| "collected w n (future # rest) =
     (if is_cancelled w n then [] else future # collected w (Suc n) rest)"

text \<open>What the loop emits for a list of futures that it processes.\<close>

fun loop_events :: "world \<Rightarrow> nat \<Rightarrow> nat \<Rightarrow> path list \<Rightarrow> action list" where
  "loop_events w total_files n [] = []"
| "loop_events w total_files n (future # rest) =
     Log (result_line w future) # Progress (Suc n) total_files
       # loop_events w total_files (Suc n) rest"

text \<open>The counters after a list of futures has been processed.\<close>

definition count_results :: "world \<Rightarrow> path list \<Rightarrow> counters \<Rightarrow> counters" where
  "count_results w ps c =
     c\<lparr>processed_count := processed_count c + length ps,
       total_resized := total_resized c + length (filter (was_resized w) ps),
       total_skipped := total_skipped c + length (filter (\<lambda>p. \<not> was_resized w p) ps)\<rparr>"

text \<open>The log lines that a progress event follows directly: one per processed result.\<close>

fun reported :: "action list \<Rightarrow> string list" where
  "reported [] = []"
| "reported (Log s # Progress c n # acts) = s # reported acts"
| "reported (_ # acts) = reported acts"

text \<open>What \<^verbatim>\<open>run\<close> emits before it creates the thread pool, for a non-empty list.\<close>

definition started :: "processing_thread \<Rightarrow> nat \<Rightarrow> action list" where
  "started t total_files =
     [Log (''Scanning folder: '' @ str_path (folder_path t)),
      Log (''Found '' @ str_nat total_files @ '' images. Starting processing...''),
      Log (''Using '' @ str_int (max_workers t) @ '' worker threads.'')]"

subsection \<open>The summary as the specification words it\<close>

text \<open>
  Section 6 of the specification describes the result of a run as a record with a
  counter for each of the three outcomes. This definition follows those words; it is
  what the summary emitted by \<^verbatim>\<open>run\<close> is compared with.
\<close>

record batch_summary =
  totalDiscovered :: nat
  totalCompleted :: nat
  totalTransformed :: nat
  totalSkipped :: nat
  totalFailed :: nat

definition spec_batch_summary :: "image_codec \<Rightarrow> path list \<Rightarrow> batch_summary" where
  "spec_batch_summary cd images =
     \<lparr>totalDiscovered = length images,
      totalCompleted = length images,
      totalTransformed = length (filter (\<lambda>p. outcome_of cd p = Transformed) images),
      totalSkipped = length (filter (\<lambda>p. outcome_of cd p = Skipped) images),
      totalFailed = length (filter (\<lambda>p. outcome_of cd p = Failed) images)\<rparr>"

subsection \<open>Sample inputs\<close>

text \<open>
  An image library in which \<^verbatim>\<open>broken.jpg\<close> cannot be decoded, \<^verbatim>\<open>edge.png\<close> is
  3840 by 2160 pixels, every other file is 7680 by 4320, and every write and deletion
  succeeds.
\<close>

definition sample_codec :: image_codec where
  "sample_codec =
     \<lparr>img_open = (\<lambda>p. if name p = ''broken.jpg''
                         then Inl (Exception ''cannot identify image file'')
                       else if name p = ''edge.png''
                         then Inr \<lparr>width = 3840, height = 2160, mode = ''RGB''\<rparr>
                       else Inr \<lparr>width = 7680, height = 4320, mode = ''RGB''\<rparr>),
      img_exif = (\<lambda>img. Inr None),
      img_resize = (\<lambda>img new. Inr \<lparr>width = fst new, height = snd new, mode = mode img\<rparr>),
      img_convert = (\<lambda>img m. Inr (img\<lparr>mode := m\<rparr>)),
      img_save = (\<lambda>img p kw. None),
      path_exists = (\<lambda>p. Inr True),
      path_unlink = (\<lambda>p. None)\<rparr>"

text \<open>
  A world in which \<^verbatim>\<open>rglob\<close> lists the given entries, every entry but \<^verbatim>\<open>sub\<close> is a
  file, no \<^verbatim>\<open>submit\<close> raises, a future completes the later the longer the name of
  its file is, and the flag is read as given.
\<close>

definition sample_world :: "path list \<Rightarrow> (nat \<Rightarrow> bool) \<Rightarrow> world" where
  "sample_world entries flag =
     \<lparr>HEIC_SUPPORT = False,
      rglob = (\<lambda>root. Inr entries),
      is_file = (\<lambda>p. name p \<noteq> ''sub''),
      cpu_count = Some 4,
      submit_error = (\<lambda>p. None),
      finish_time = (\<lambda>p. length (name p)),
      codec = sample_codec,
      is_cancelled = flag,
      format_exc = (\<lambda>e. ''Traceback (most recent call last): '' @ str e)\<rparr>"

definition sample_thread :: processing_thread where
  "sample_thread = init (sample_world [] (\<lambda>k. False)) (Path [] ''pics'') None"

definition three_files :: "path list" where
  "three_files =
     [Path [''pics''] ''a.jpg'', Path [''pics''] ''broken.jpg'', Path [''pics''] ''edge.png'']"

definition ten_files :: "path list" where
  "ten_files =
     [Path [''pics''] ''f1.jpg'', Path [''pics''] ''f2.jpg'', Path [''pics''] ''f3.jpg'',
      Path [''pics''] ''f4.jpg'', Path [''pics''] ''broken.jpg'', Path [''pics''] ''f6.jpg'',
      Path [''pics''] ''f7.jpg'', Path [''pics''] ''f8.jpg'', Path [''pics''] ''f9.jpg'',
      Path [''pics''] ''f10.jpg'']"

text \<open>
  A thread created with a negative number of workers, which \<^verbatim>\<open>__init__\<close> keeps as it
  is, and the world in which \<^verbatim>\<open>rglob\<close> lists the ten files and the flag is never set.
\<close>

definition bad_thread :: processing_thread where
  "bad_thread = init (sample_world [] (\<lambda>k. False)) (Path [] ''pics'') (Some (- 1))"

definition ten_files_world :: world where
  "ten_files_world = sample_world ten_files (\<lambda>k. False)"

section \<open>Properties\<close>

subsection \<open>The per-file transform\<close>

lemma str_nat_3840: "str_nat 3840 = ''3840''"
  by (simp add: str_nat.simps)

lemma str_nat_7680: "str_nat 7680 = ''7680''"
  by (simp add: str_nat.simps)

lemma new_dimensions_7680_4320: "new_dimensions 7680 4320 = Inr (3840, 2160)"
  by (simp add: new_dimensions_def int_truediv_def round_ratio_def float_mul_int_def
      int_of_float_def MAX_DIMENSION_def bit_length.simps Let_def)

lemma with_suffix_webp:
  assumes "with_suffix p ''.webp'' = Inr out"
  shows "parent out = parent p"
    and "name out = take (length (name p) - length (suffix_of p)) (name p) @ ''.webp''"
proof -
  have "out = (if suffix_of p = [] then Path (parent p) (name p @ ''.webp'')
               else Path (parent p)
                  (take (length (name p) - length (suffix_of p)) (name p) @ ''.webp''))"
    using assms by (simp add: with_suffix_def split: if_splits)
  then show "parent out = parent p"
    and "name out = take (length (name p) - length (suffix_of p)) (name p) @ ''.webp''"
    by (simp_all split: if_splits)
qed

lemma write_output_success:
  assumes "fst (write_output cd p r ex md new) = Inr (True, m)"
  shows "\<exists>out kw. with_suffix p ''.webp'' = Inr out
           \<and> format kw = ''WEBP'' \<and> lossless kw = False \<and> quality kw = 85
           \<and> img_save cd r out kw = None
           \<and> snd (write_output cd p r ex md new)
               = Save out r kw # (if out \<noteq> p \<and> path_exists cd out = Inr True then [Unlink p] else [])"
proof (cases "with_suffix p ''.webp''")
  case (Inl e)
  with assms show ?thesis by (simp add: write_output_def)
next
  case (Inr out)
  define kw where "kw = \<lparr>format = ''WEBP'', lossless = False, quality = 85,
                    exif = (if ex \<noteq> None \<and> ex \<noteq> Some [] then ex else None)\<rparr>"
  have sv: "img_save cd r out kw = None"
    using assms Inr by (cases "img_save cd r out kw") (simp_all add: write_output_def kw_def Let_def)
  have "snd (write_output cd p r ex md new)
          = Save out r kw # (if out \<noteq> p \<and> path_exists cd out = Inr True then [Unlink p] else [])"
  proof (cases "out = p")
    case True
    then show ?thesis using Inr sv by (simp add: write_output_def kw_def Let_def)
  next
    case False
    show ?thesis
    proof (cases "path_exists cd out")
      case (Inl e)
      then show ?thesis using Inr sv False by (simp add: write_output_def kw_def Let_def)
    next
      case ex: (Inr b)
      show ?thesis
      proof (cases b)
        case True
        then show ?thesis using Inr sv False ex
          by (cases "path_unlink cd p") (simp_all add: write_output_def kw_def Let_def)
      next
        case False
        then show ?thesis using Inr sv \<open>out \<noteq> p\<close> ex
          by (simp add: write_output_def kw_def Let_def)
      qed
    qed
  qed
  with Inr sv show ?thesis by (intro exI [of _ out] exI [of _ kw]) (simp add: kw_def)
qed

lemma body_large_image:
  assumes "img_open cd p = Inr img" and "\<not> max (width img) (height img) \<le> MAX_DIMENSION"
  shows "process_image_body cd p =
     (case new_dimensions (width img) (height img) of
        Inl e \<Rightarrow> (Inl e, [])
      | Inr new \<Rightarrow>
          (case img_resize cd img new of
             Inl e \<Rightarrow> (Inl e, [])
           | Inr img_resized \<Rightarrow>
               (case convert_mode cd img_resized of
                  Inl e \<Rightarrow> (Inl e, [])
                | Inr r \<Rightarrow>
                    write_output cd p r (case img_exif cd img of Inl _ \<Rightarrow> None | Inr x \<Rightarrow> x)
                      (max (width img) (height img)) new)))"
  using assms unfolding process_image_body_def Let_def by (simp del: max.bounded_iff)

lemma body_success:
  assumes "fst (process_image_body cd p) = Inr (True, m)"
  shows "\<exists>r ex md new. process_image_body cd p = write_output cd p r ex md new"
proof (cases "img_open cd p")
  case (Inl e)
  with assms show ?thesis by (simp add: process_image_body_def)
next
  case (Inr img)
  show ?thesis
  proof (cases "max (width img) (height img) \<le> MAX_DIMENSION")
    case True
    with assms Inr show ?thesis by (simp add: process_image_body_def Let_def)
  next
    case False
    note body = body_large_image [OF Inr False]
    show ?thesis
    proof (cases "new_dimensions (width img) (height img)")
      case (Inl e)
      with assms body show ?thesis by simp
    next
      case nd: (Inr new)
      show ?thesis
      proof (cases "img_resize cd img new")
        case (Inl e)
        with assms body nd show ?thesis by simp
      next
        case rs: (Inr img_resized)
        show ?thesis
        proof (cases "convert_mode cd img_resized")
          case (Inl e)
          with assms body nd rs show ?thesis by simp
        next
          case cv: (Inr r)
          have "process_image_body cd p
                  = write_output cd p r (case img_exif cd img of Inl _ \<Rightarrow> None | Inr x \<Rightarrow> x)
                      (max (width img) (height img)) new"
            using body nd rs cv by simp
          then show ?thesis by blast
        qed
      qed
    qed
  qed
qed

lemma process_image_success_body:
  assumes "fst (process_image cd p) = Inr (True, m)"
  shows "fst (process_image_body cd p) = Inr (True, m)"
    and "snd (process_image cd p) = snd (process_image_body cd p)"
  using assms
  by (cases "process_image_body cd p"; cases "fst (process_image_body cd p)";
      simp add: process_image_def)+

lemma suffix_of_a_jpg: "suffix_of (Path [''pics''] ''a.jpg'') = ''.jpg''"
  by (simp add: suffix_of_def rfind_def upt_rec)

lemma with_suffix_a_jpg: "with_suffix (Path [''pics''] ''a.jpg'') ''.webp'' = Inr (Path [''pics''] ''a.webp'')"
  by (simp add: with_suffix_def suffix_of_a_jpg)

lemma sample_a_jpg:
  "process_image sample_codec (Path [''pics''] ''a.jpg'')
     = (Inr (True, ''Resized 7680px '' @ arrow @ '' 3840px: a.jpg''),
        [Save (Path [''pics''] ''a.webp'') \<lparr>width = 3840, height = 2160, mode = ''RGB''\<rparr>
           \<lparr>format = ''WEBP'', lossless = False, quality = 85, exif = None\<rparr>,
         Unlink (Path [''pics''] ''a.jpg'')])"
  by (simp add: process_image_def process_image_body_def sample_codec_def MAX_DIMENSION_def
      new_dimensions_7680_4320 convert_mode_def write_output_def with_suffix_a_jpg
      resized_message_def str_nat_3840 str_nat_7680 Let_def)

text \<open>
  Claim C5. Whenever the larger side of the decoded image is at most 3840 pixels,
  \<^verbatim>\<open>process_image\<close> returns the skipped result and has made no call that writes or
  deletes a file; the bound is inclusive, as the image of 3840 by 2160 pixels shows.
\<close>

theorem skipped_within_limit:
  assumes "img_open cd p = Inr img" and "max (width img) (height img) \<le> 3840"
  shows "process_image cd p
           = (Inr (False, skipped_message (max (width img) (height img)) p), [])"
  using assms by (simp add: process_image_def process_image_body_def MAX_DIMENSION_def Let_def)

theorem skipped_within_limit_witness:
  "img_open sample_codec (Path [''pics''] ''edge.png'')
     = Inr \<lparr>width = 3840, height = 2160, mode = ''RGB''\<rparr>
   \<and> max (width \<lparr>width = 3840, height = 2160, mode = ''RGB''\<rparr>)
         (height \<lparr>width = 3840, height = 2160, mode = ''RGB''\<rparr>) \<le> (3840::nat)
   \<and> process_image sample_codec (Path [''pics''] ''edge.png'')
       = (Inr (False, ''Skipped (already 3840px): edge.png''), [])"
  using skipped_within_limit [of sample_codec "Path [''pics''] ''edge.png''"
      "\<lparr>width = 3840, height = 2160, mode = ''RGB''\<rparr>"]
  by (simp add: sample_codec_def skipped_message_def str_nat_3840)

text \<open>
  Claim C6. The smaller side is the truncation of the product computed in double
  precision, which is not always the truncation of the exact quotient: an image of
  4640 by 2378 pixels scales exactly to 3840 by 1968, and the program computes 3840 by
  1967.
\<close>

theorem new_dimensions_off_by_one:
  "new_dimensions 4640 2378 = Inr (3840, 1967)
   \<and> (2378 * 3840) div 4640 = (1968::nat)
   \<and> (2378 * 3840) mod 4640 = (0::nat)"
  by (simp add: new_dimensions_def int_truediv_def round_ratio_def float_mul_int_def
      int_of_float_def MAX_DIMENSION_def bit_length.simps Let_def)

text \<open>
  Claim C8. When \<^verbatim>\<open>process_image\<close> returns the resized result, it has written the image
  once, as lossy WebP of quality 85, to the path whose name is the original name with
  its suffix replaced by \<^verbatim>\<open>.webp\<close>, and the write did not raise; after that it has
  deleted the original exactly when the output path differs from the original path and
  \<^verbatim>\<open>exists\<close> answered true for the output; it has made no other call.
\<close>

theorem transform_writes_webp_then_deletes:
  assumes "fst (process_image cd p) = Inr (True, m)"
  shows "\<exists>out r kw.
           with_suffix p ''.webp'' = Inr out
         \<and> parent out = parent p
         \<and> name out = take (length (name p) - length (suffix_of p)) (name p) @ ''.webp''
         \<and> format kw = ''WEBP'' \<and> lossless kw = False \<and> quality kw = 85
         \<and> img_save cd r out kw = None
         \<and> snd (process_image cd p)
             = Save out r kw # (if out \<noteq> p \<and> path_exists cd out = Inr True then [Unlink p] else [])"
proof -
  from assms have b: "fst (process_image_body cd p) = Inr (True, m)"
    and s: "snd (process_image cd p) = snd (process_image_body cd p)"
    by (rule process_image_success_body)+
  from body_success [OF b] obtain r ex md new
    where w: "process_image_body cd p = write_output cd p r ex md new" by blast
  with b have "fst (write_output cd p r ex md new) = Inr (True, m)" by simp
  from write_output_success [OF this] obtain out kw where
    o: "with_suffix p ''.webp'' = Inr out"
       "format kw = ''WEBP''" "lossless kw = False" "quality kw = 85"
       "img_save cd r out kw = None"
       "snd (write_output cd p r ex md new)
               = Save out r kw # (if out \<noteq> p \<and> path_exists cd out = Inr True then [Unlink p] else [])"
    by blast
  have c: "snd (process_image cd p)
      = Save out r kw # (if out \<noteq> p \<and> path_exists cd out = Inr True then [Unlink p] else [])"
    using o(6) s w by simp
  show ?thesis
    using o(1-5) c with_suffix_webp [OF o(1)]
    by (intro exI [of _ out] exI [of _ r] exI [of _ kw]) simp
qed

theorem transform_writes_webp_then_deletes_witness:
  "fst (process_image sample_codec (Path [''pics''] ''a.jpg''))
     = Inr (True, ''Resized 7680px '' @ arrow @ '' 3840px: a.jpg'')
   \<and> (\<exists>out r kw.
           with_suffix (Path [''pics''] ''a.jpg'') ''.webp'' = Inr out
         \<and> parent out = [''pics'']
         \<and> name out = ''a.webp''
         \<and> format kw = ''WEBP'' \<and> lossless kw = False \<and> quality kw = 85
         \<and> img_save sample_codec r out kw = None
         \<and> snd (process_image sample_codec (Path [''pics''] ''a.jpg''))
             = [Save out r kw, Unlink (Path [''pics''] ''a.jpg'')])"
  using transform_writes_webp_then_deletes [of sample_codec "Path [''pics''] ''a.jpg''"
      "''Resized 7680px '' @ arrow @ '' 3840px: a.jpg''"]
  by (simp add: sample_a_jpg with_suffix_a_jpg suffix_of_a_jpg)



text \<open>The failures after decoding, one by one.\<close>

lemma resize_failure_is_caught:
  assumes "img_open cd p = Inr img" and "\<not> max (width img) (height img) \<le> MAX_DIMENSION"
    and "new_dimensions (width img) (height img) = Inr new"
    and "img_resize cd img new = Inl e"
  shows "process_image cd p = (Inr (False, error_message p e), [])"
  using assms(3,4) by (simp add: process_image_def body_large_image [OF assms(1,2)])

lemma save_failure_is_caught:
  assumes "process_image_body cd p = write_output cd p r ex md new"
    and "with_suffix p ''.webp'' = Inr out"
    and "img_save cd r out \<lparr>format = ''WEBP'', lossless = False, quality = 85,
            exif = (if ex \<noteq> None \<and> ex \<noteq> Some [] then ex else None)\<rparr> = Some e"
  shows "fst (process_image cd p) = Inr (False, error_message p e)"
  using assms by (simp add: process_image_def write_output_def Let_def)

lemma unlink_failure_is_caught:
  assumes "process_image_body cd p = write_output cd p r ex md new"
    and "with_suffix p ''.webp'' = Inr out"
    and "img_save cd r out \<lparr>format = ''WEBP'', lossless = False, quality = 85,
            exif = (if ex \<noteq> None \<and> ex \<noteq> Some [] then ex else None)\<rparr> = None"
    and "out \<noteq> p" and "path_exists cd out = Inr True" and "path_unlink cd p = Some e"
  shows "fst (process_image cd p) = Inr (False, error_message p e)"
  using assms by (simp add: process_image_def write_output_def Let_def)

subsection \<open>The loop over the completed futures\<close>

lemma handle_result_eq:
  "handle_result w N f c
     = ([Log (result_line w f), Progress (Suc (processed_count c)) N], count_results w [f] c)"
  by (cases "future_result w f")
     (auto simp: handle_result_def result_line_def was_resized_def count_results_def Let_def)

lemma count_results_Nil: "count_results w [] c = c"
  by (simp add: count_results_def)

lemma count_results_Cons:
  "count_results w ps (count_results w [f] c) = count_results w (f # ps) c"
  by (simp add: count_results_def)

lemma processed_count_results:
  "processed_count (count_results w ps c) = processed_count c + length ps"
  by (simp add: count_results_def)

lemma collect_eq:
  "collect w N ps c
     = (loop_events w N (processed_count c) (collected w (processed_count c) ps)
          @ (if length (collected w (processed_count c) ps) < length ps
             then [CancelFutures, Log ''Processing cancelled.''] else []),
        count_results w (collected w (processed_count c) ps) c)"
proof (induction ps arbitrary: c)
  case Nil
  show ?case by (simp add: count_results_Nil)
next
  case (Cons f ps)
  show ?case
  proof (cases "is_cancelled w (processed_count c)")
    case True
    then show ?thesis by (simp add: count_results_Nil)
  next
    case False
    have n: "processed_count (count_results w [f] c) = Suc (processed_count c)"
      by (simp add: processed_count_results)
    show ?thesis
      using False by (simp add: handle_result_eq Cons.IH n count_results_Cons)
  qed
qed


lemma collected_all:
  "(\<forall>k<length ps. \<not> is_cancelled w (n + k)) \<Longrightarrow> collected w n ps = ps"
proof (induction ps arbitrary: n)
  case Nil
  show ?case by simp
next
  case (Cons f ps)
  have "\<not> is_cancelled w n" using Cons.prems by force
  moreover have "\<forall>k<length ps. \<not> is_cancelled w (Suc n + k)"
    using Cons.prems by force
  ultimately show ?case using Cons.IH by simp
qed

lemma collected_cancel:
  "k < length ps \<Longrightarrow> (\<forall>j<k. \<not> is_cancelled w (n + j)) \<Longrightarrow> is_cancelled w (n + k)
     \<Longrightarrow> collected w n ps = take k ps"
proof (induction ps arbitrary: n k)
  case Nil
  then show ?case by simp
next
  case (Cons f ps)
  show ?case
  proof (cases k)
    case 0
    with Cons.prems show ?thesis by simp
  next
    case (Suc k')
    have a: "\<not> is_cancelled w n" using Cons.prems(2) Suc by force
    have b: "\<forall>j<k'. \<not> is_cancelled w (Suc n + j)" using Cons.prems(2) Suc by force
    have c: "is_cancelled w (Suc n + k')" using Cons.prems(3) Suc by simp
    have "k' < length ps" using Cons.prems(1) Suc by simp
    from Cons.IH [OF this b c] a Suc show ?thesis by simp
  qed
qed

lemma progress_events_append:
  "progress_events (xs @ ys) = progress_events xs @ progress_events ys"
  by (induction xs rule: progress_events.induct) auto

lemma progress_loop_events:
  "progress_events (loop_events w N n ps) = map (\<lambda>i. (i, N)) [Suc n..<Suc (n + length ps)]"
proof (induction ps arbitrary: n)
  case Nil
  show ?case by simp
next
  case (Cons f ps)
  have "[Suc n..<Suc (n + length (f # ps))] = Suc n # [Suc (Suc n)..<Suc (Suc n + length ps)]"
    by (simp add: upt_rec)
  then show ?case using Cons.IH [of "Suc n"] by simp
qed

lemma reported_loop_events_append:
  "(case tl_acts of Progress _ _ # _ \<Rightarrow> False | _ \<Rightarrow> True) \<Longrightarrow>
   reported (loop_events w N n ps @ tl_acts) = map (result_line w) ps @ reported tl_acts"
  by (induction ps arbitrary: n) auto

lemma filter_Finished_loop_events: "filter is_Finished (loop_events w N n ps) = []"
  by (induction ps arbitrary: n) auto

lemma submit_all_actions:
  "fst (submit_all w ps) = map Submit (takeWhile (\<lambda>p. submit_error w p = None) ps)"
  by (induction ps) (auto split: option.splits prod.splits)

lemma submit_all_ok:
  "(\<forall>p\<in>set ps. submit_error w p = None) \<Longrightarrow> submit_all w ps = (map Submit ps, None)"
  by (induction ps) auto

subsection \<open>The shape of a run\<close>

lemma submit_all_None:
  "snd (submit_all w ps) = None \<Longrightarrow> submit_all w ps = (map Submit ps, None)"
  by (induction ps) (auto split: option.splits prod.splits)

lemma run_scan_error:
  assumes "find_images w (folder_path t) = Inl e"
  shows "run w t = [Log (''Scanning folder: '' @ str_path (folder_path t)),
                    Log (''Fatal error: '' @ str e), Log (format_exc w e), Finished 0 0 0]"
  using assms by (simp add: run_def run_body_def)

lemma run_no_images:
  assumes "find_images w (folder_path t) = Inr []"
  shows "run w t = [Log (''Scanning folder: '' @ str_path (folder_path t)),
                    Log ''No supported images found.'', Finished 0 0 0]"
  using assms by (simp add: run_def run_body_def)

lemma run_bad_workers:
  assumes "find_images w (folder_path t) = Inr images" and "images \<noteq> []"
    and "max_workers t \<le> 0"
  shows "run w t = started t (length images)
           @ [Log (''Fatal error: '' @ ''max_workers must be greater than 0''),
              Log (format_exc w (Exception ''max_workers must be greater than 0'')),
              Finished 0 0 0]"
  using assms by (simp add: run_def run_body_def started_def Let_def)

lemma run_submit_error:
  assumes "find_images w (folder_path t) = Inr images" and "images \<noteq> []"
    and "0 < max_workers t" and "submit_all w images = (subs, Some e)"
  shows "run w t = started t (length images) @ subs
           @ [ShutdownWait, Log (''Fatal error: '' @ str e), Log (format_exc w e), Finished 0 0 0]"
  using assms by (simp add: run_def run_body_def started_def Let_def)

lemma run_collecting:
  assumes "find_images w (folder_path t) = Inr images" and "images \<noteq> []"
    and "0 < max_workers t" and "snd (submit_all w images) = None"
  shows "run w t = started t (length images) @ map Submit images
           @ loop_events w (length images) 0 (collected w 0 (as_completed w images))
           @ (if length (collected w 0 (as_completed w images)) < length (as_completed w images)
              then [CancelFutures, Log ''Processing cancelled.''] else [])
           @ [ShutdownWait,
              Finished (length (collected w 0 (as_completed w images)))
                (length (filter (was_resized w) (collected w 0 (as_completed w images))))
                (length (filter (\<lambda>p. \<not> was_resized w p) (collected w 0 (as_completed w images))))]"
  using assms(1-3) submit_all_None [OF assms(4)]
  by (simp add: run_def run_body_def started_def Let_def collect_eq count_results_def)

lemma run_cases [case_names scan_error no_images bad_workers submit_error collecting]:
  obtains e where "find_images w (folder_path t) = Inl e"
  | "find_images w (folder_path t) = Inr []"
  | images where "find_images w (folder_path t) = Inr images" "images \<noteq> []" "max_workers t \<le> 0"
  | images subs e where "find_images w (folder_path t) = Inr images" "images \<noteq> []"
      "0 < max_workers t" "submit_all w images = (subs, Some e)"
  | images where "find_images w (folder_path t) = Inr images" "images \<noteq> []"
      "0 < max_workers t" "snd (submit_all w images) = None"
proof (cases "find_images w (folder_path t)")
  case (Inl e)
  then show ?thesis using that(1) by blast
next
  case (Inr images)
  show ?thesis
  proof (cases "images = []")
    case True
    with Inr show ?thesis using that(2) by blast
  next
    case ne: False
    show ?thesis
    proof (cases "max_workers t \<le> 0")
      case True
      with Inr ne show ?thesis using that(3) by blast
    next
      case False
      then have pos: "0 < max_workers t" by simp
      show ?thesis
      proof (cases "snd (submit_all w images)")
        case None
        with Inr ne pos show ?thesis using that(5) by blast
      next
        case (Some e)
        then have "submit_all w images = (fst (submit_all w images), Some e)"
          by (cases "submit_all w images") simp
        with Inr ne pos show ?thesis using that(4) by blast
      qed
    qed
  qed
qed

lemma filter_Finished_started: "filter is_Finished (started t n) = []"
  by (simp add: started_def)

lemma filter_Finished_subs: "filter is_Finished (fst (submit_all w ps)) = []"
  by (simp add: submit_all_actions)

lemma length_as_completed: "length (as_completed w images) = length images"
  by (simp add: as_completed_def)

lemma mset_as_completed: "mset (as_completed w images) = mset images"
  by (simp add: as_completed_def)

subsection \<open>Progress events and result lines\<close>

lemma progress_events_started: "progress_events (started t n) = []"
  by (simp add: started_def)

lemma progress_events_Submit: "progress_events (map Submit ps) = []"
  by (induction ps) auto


lemma reported_Submit: "reported (map Submit ps @ acts) = reported acts"
  by (induction ps) auto

lemma reported_started_Submit:
  "reported (started t n @ Submit p # acts) = reported (Submit p # acts)"
  by (simp add: started_def)

lemma progress_run_collecting:
  assumes "find_images w (folder_path t) = Inr images" and "images \<noteq> []"
    and "0 < max_workers t" and "snd (submit_all w images) = None"
  shows "progress_events (run w t)
           = map (\<lambda>i. (i, length images))
               [1..<Suc (length (collected w 0 (as_completed w images)))]"
  by (simp add: run_collecting [OF assms] progress_events_append progress_events_started
      progress_events_Submit progress_loop_events)

lemma reported_run_collecting:
  assumes "find_images w (folder_path t) = Inr images" and "images \<noteq> []"
    and "0 < max_workers t" and "snd (submit_all w images) = None"
  shows "reported (run w t) = map (result_line w) (collected w 0 (as_completed w images))"
proof -
  obtain p ps where im: "images = p # ps" using assms(2) by (cases images) auto
  let ?done = "collected w 0 (as_completed w images)"
  let ?tl = "(if length ?done < length (as_completed w images)
              then [CancelFutures, Log ''Processing cancelled.''] else [])
             @ [ShutdownWait,
                Finished (length ?done) (length (filter (was_resized w) ?done))
                  (length (filter (\<lambda>p. \<not> was_resized w p) ?done))]"
  have r: "run w t = started t (length images) @ map Submit images
             @ loop_events w (length images) 0 ?done @ ?tl"
    using run_collecting [OF assms] by simp
  have "reported (run w t) = reported (map Submit images @ loop_events w (length images) 0 ?done @ ?tl)"
    unfolding r using reported_started_Submit [of t "length images" p] by (simp add: im)
  also have "\<dots> = reported (loop_events w (length images) 0 ?done @ ?tl)"
    by (rule reported_Submit)
  also have "\<dots> = map (result_line w) ?done @ reported ?tl"
    by (rule reported_loop_events_append) simp
  also have "reported ?tl = []" by simp
  finally show ?thesis by simp
qed

subsection \<open>Outcomes and counters\<close>

lemma was_resized_outcome: "was_resized w p = (outcome_of (codec w) p = Transformed)"
  unfolding was_resized_def future_result_def process_image_def outcome_of_def
  by (cases "process_image_body (codec w) p") (auto split: sum.splits bool.splits)

lemma not_resized_outcome:
  "(\<not> was_resized w p) = (outcome_of (codec w) p = Skipped \<or> outcome_of (codec w) p = Failed)"
  by (cases "outcome_of (codec w) p") (simp_all add: was_resized_outcome)

lemma length_filter_disj:
  "(\<And>x. \<not> (P x \<and> Q x)) \<Longrightarrow>
   length (filter (\<lambda>x. P x \<or> Q x) xs) = length (filter P xs) + length (filter Q xs)"
  by (induction xs) auto

lemma length_filter_resized:
  "length (filter (was_resized w) ps)
     = length (filter (\<lambda>p. outcome_of (codec w) p = Transformed) ps)"
proof -
  have "was_resized w = (\<lambda>p. outcome_of (codec w) p = Transformed)"
    by (rule ext) (simp add: was_resized_outcome)
  then show ?thesis by simp
qed

lemma length_filter_not_resized:
  "length (filter (\<lambda>p. \<not> was_resized w p) ps)
     = length (filter (\<lambda>p. outcome_of (codec w) p = Skipped) ps)
       + length (filter (\<lambda>p. outcome_of (codec w) p = Failed) ps)"
proof -
  have "length (filter (\<lambda>p. \<not> was_resized w p) ps)
      = length (filter (\<lambda>p. outcome_of (codec w) p = Skipped \<or> outcome_of (codec w) p = Failed) ps)"
    by (simp add: not_resized_outcome)
  also have "\<dots> = length (filter (\<lambda>p. outcome_of (codec w) p = Skipped) ps)
       + length (filter (\<lambda>p. outcome_of (codec w) p = Failed) ps)"
    by (rule length_filter_disj) simp
  finally show ?thesis .
qed

lemma length_filter_mset:
  "mset xs = mset ys \<Longrightarrow> length (filter P xs) = length (filter P ys)"
  by (metis mset_filter size_mset)

lemma handle_result_counters:
  "snd (handle_result w N f c)
     = (if outcome_of (codec w) f = Transformed
        then c\<lparr>processed_count := processed_count c + 1, total_resized := total_resized c + 1\<rparr>
        else c\<lparr>processed_count := processed_count c + 1, total_skipped := total_skipped c + 1\<rparr>)"
  by (simp add: handle_result_eq count_results_def was_resized_outcome)

lemma progress_collect:
  "progress_events (fst (collect w N ps c))
     = map (\<lambda>i. (i, N))
         [Suc (processed_count c)
            ..<Suc (processed_count c + length (collected w (processed_count c) ps))]"
  by (simp add: collect_eq progress_events_append progress_loop_events)

lemma progress_collect_states:
  "progress_events (fst (collect w N ps c))
     = map (\<lambda>c'. (processed_count c', N)) (loop_states w N ps c)"
proof (induction ps arbitrary: c)
  case Nil
  show ?case by simp
next
  case (Cons f ps)
  show ?case
  proof (cases "is_cancelled w (processed_count c)")
    case True
    then show ?thesis by simp
  next
    case False
    have n: "processed_count (count_results w [f] c) = Suc (processed_count c)"
      by (simp add: processed_count_results)
    show ?thesis
      using False Cons.IH [of "count_results w [f] c"]
      by (simp add: handle_result_eq n case_prod_unfold)
  qed
qed

lemma loop_states_invariant:
  "processed_count c = total_resized c + total_skipped c \<Longrightarrow>
   \<forall>c'\<in>set (loop_states w N ps c). processed_count c' = total_resized c' + total_skipped c'"
proof (induction ps arbitrary: c)
  case Nil
  show ?case by simp
next
  case (Cons f ps)
  have inv: "processed_count (count_results w [f] c)
      = total_resized (count_results w [f] c) + total_skipped (count_results w [f] c)"
    using Cons.prems by (simp add: count_results_def)
  show ?case
    using Cons.IH [OF inv] inv by (simp add: handle_result_eq)
qed

lemma no_Finished_in:
  "filter is_Finished pre = [] \<Longrightarrow> Finished a r s \<notin> set pre"
  by (auto simp: filter_empty_conv)

lemma run_summaryI:
  "run w t = pre @ [Finished a r s] \<Longrightarrow> filter is_Finished pre = [] \<Longrightarrow> a = r + s \<Longrightarrow>
   \<exists>pre a r s. run w t = pre @ [Finished a r s] \<and> filter is_Finished pre = [] \<and> a = r + s"
  by blast

lemma run_summary:
  "\<exists>pre a r s. run w t = pre @ [Finished a r s] \<and> filter is_Finished pre = [] \<and> a = r + s"
proof (cases rule: run_cases [of w t])
  case (scan_error e)
  have "run w t = [Log (''Scanning folder: '' @ str_path (folder_path t)),
                   Log (''Fatal error: '' @ str e), Log (format_exc w e)] @ [Finished 0 0 0]"
    using scan_error by (simp add: run_scan_error)
  then show ?thesis by (rule run_summaryI) simp_all
next
  case no_images
  have "run w t = [Log (''Scanning folder: '' @ str_path (folder_path t)),
                   Log ''No supported images found.''] @ [Finished 0 0 0]"
    using no_images by (simp add: run_no_images)
  then show ?thesis by (rule run_summaryI) simp_all
next
  case (bad_workers images)
  let ?pre = "started t (length images)
           @ [Log (''Fatal error: '' @ ''max_workers must be greater than 0''),
              Log (format_exc w (Exception ''max_workers must be greater than 0''))]"
  have "run w t = ?pre @ [Finished 0 0 0]"
    using bad_workers by (simp add: run_bad_workers)
  moreover have "filter is_Finished ?pre = []" by (simp add: filter_Finished_started)
  ultimately show ?thesis by (rule run_summaryI) simp
next
  case (submit_error images subs e)
  let ?pre = "started t (length images) @ subs
           @ [ShutdownWait, Log (''Fatal error: '' @ str e), Log (format_exc w e)]"
  have s: "filter is_Finished subs = []"
    using filter_Finished_subs [of w images] submit_error(4) by simp
  have "run w t = ?pre @ [Finished 0 0 0]"
    using submit_error by (simp add: run_submit_error)
  moreover have "filter is_Finished ?pre = []" using s by (simp add: filter_Finished_started)
  ultimately show ?thesis by (rule run_summaryI) simp
next
  case (collecting images)
  let ?done = "collected w 0 (as_completed w images)"
  let ?pre = "started t (length images) @ map Submit images
           @ loop_events w (length images) 0 ?done
           @ (if length ?done < length (as_completed w images)
              then [CancelFutures, Log ''Processing cancelled.''] else [])
           @ [ShutdownWait]"
  have "run w t = ?pre @ [Finished (length ?done) (length (filter (was_resized w) ?done))
                (length (filter (\<lambda>p. \<not> was_resized w p) ?done))]"
    using run_collecting [OF collecting] by simp
  moreover have "filter is_Finished ?pre = []"
    by (simp add: filter_Finished_started filter_Finished_loop_events)
  moreover have "length ?done = length (filter (was_resized w) ?done)
                + length (filter (\<lambda>p. \<not> was_resized w p) ?done)"
    by (simp add: sum_length_filter_compl)
  ultimately show ?thesis by (rule run_summaryI)
qed

lemma run_body_fatal:
  "snd (run_body w t) = Some e \<Longrightarrow>
   run w t = fst (run_body w t)
               @ [Log (''Fatal error: '' @ str e), Log (format_exc w e), Finished 0 0 0]"
  by (cases "run_body w t") (simp add: run_def)

lemma run_collecting_all:
  assumes "find_images w (folder_path t) = Inr images" and "images \<noteq> []"
    and "0 < max_workers t" and "\<forall>p\<in>set images. submit_error w p = None"
    and "\<forall>k<length images. \<not> is_cancelled w k"
  shows "run w t = started t (length images) @ map Submit images
           @ loop_events w (length images) 0 (as_completed w images)
           @ [ShutdownWait,
              Finished (length images) (length (filter (was_resized w) (as_completed w images)))
                (length (filter (\<lambda>p. \<not> was_resized w p) (as_completed w images)))]"
proof -
  have sub: "snd (submit_all w images) = None" using submit_all_ok [OF assms(4)] by simp
  have all: "collected w 0 (as_completed w images) = as_completed w images"
    using assms(5) collected_all [of "as_completed w images" w 0]
    by (simp add: length_as_completed)
  show ?thesis
    using run_collecting [OF assms(1-3) sub] by (simp add: all length_as_completed)
qed

lemma run_collecting_cancelled:
  assumes "find_images w (folder_path t) = Inr images" and "0 < max_workers t"
    and "\<forall>p\<in>set images. submit_error w p = None"
    and "k < length images" and "\<forall>j<k. \<not> is_cancelled w j" and "is_cancelled w k"
  shows "run w t = started t (length images) @ map Submit images
           @ loop_events w (length images) 0 (take k (as_completed w images))
           @ [CancelFutures, Log ''Processing cancelled.'', ShutdownWait,
              Finished k (length (filter (was_resized w) (take k (as_completed w images))))
                (length (filter (\<lambda>p. \<not> was_resized w p) (take k (as_completed w images))))]"
proof -
  have ne: "images \<noteq> []" using assms(4) by auto
  have sub: "snd (submit_all w images) = None" using submit_all_ok [OF assms(3)] by simp
  have kk: "k < length (as_completed w images)" using assms(4) by (simp add: length_as_completed)
  have col: "collected w 0 (as_completed w images) = take k (as_completed w images)"
    using collected_cancel [of k "as_completed w images" w 0] kk assms(5,6) by simp
  have len: "length (take k (as_completed w images)) = k" using kk by simp
  show ?thesis
    using run_collecting [OF assms(1) ne assms(2) sub] kk by (simp add: col len)
qed

subsection \<open>The sample runs\<close>

lemma sample_thread_eq: "sample_thread = \<lparr>folder_path = Path [] ''pics'', max_workers = 8\<rparr>"
  by (simp add: sample_thread_def init_def sample_world_def)

lemma bad_thread_eq: "bad_thread = \<lparr>folder_path = Path [] ''pics'', max_workers = - 1\<rparr>"
  by (simp add: bad_thread_def init_def)

lemma suffix_of_notes: "suffix_of (Path [''pics''] ''notes.txt'') = ''.txt''"
  by (simp add: suffix_of_def rfind_def upt_rec)

lemma lower_txt: "lower ''.txt'' = ''.txt''"
  by (simp add: lower_def char_lower_def)

lemma suffix_of_broken_jpg: "suffix_of (Path [''pics''] ''broken.jpg'') = ''.jpg''"
  by (simp add: suffix_of_def rfind_def upt_rec)

lemma suffix_of_edge_png: "suffix_of (Path [''pics''] ''edge.png'') = ''.png''"
  by (simp add: suffix_of_def rfind_def upt_rec)

lemma lower_jpg: "lower ''.jpg'' = ''.jpg''"
  by (simp add: lower_def char_lower_def)

lemma lower_png: "lower ''.png'' = ''.png''"
  by (simp add: lower_def char_lower_def)

lemma none_found:
  "find_images (sample_world [Path [''pics''] ''sub'', Path [''pics''] ''notes.txt''] flag) root
     = Inr []"
  by (simp add: find_images_def sample_world_def SUPPORTED_FORMATS_def suffix_of_notes lower_txt)

lemma three_found: "find_images (sample_world three_files flag) root = Inr three_files"
  by (simp add: find_images_def sample_world_def three_files_def SUPPORTED_FORMATS_def
      suffix_of_a_jpg suffix_of_broken_jpg suffix_of_edge_png lower_jpg lower_png)

lemma three_order:
  "as_completed (sample_world three_files flag) three_files
     = [Path [''pics''] ''a.jpg'', Path [''pics''] ''edge.png'', Path [''pics''] ''broken.jpg'']"
  by (simp add: as_completed_def sample_world_def three_files_def)

lemma sample_large:
  assumes "name p \<noteq> ''broken.jpg''" and "name p \<noteq> ''edge.png''" and "name p \<noteq> []"
  shows "fst (process_image sample_codec p)
           = Inr (True, ''Resized 7680px '' @ arrow @ '' 3840px: '' @ name p)"
  using assms
  by (simp add: process_image_def process_image_body_def sample_codec_def MAX_DIMENSION_def
      new_dimensions_7680_4320 convert_mode_def write_output_def with_suffix_def
      resized_message_def str_nat_3840 str_nat_7680 Let_def)

lemma sample_edge:
  "fst (process_image sample_codec (Path [''pics''] ''edge.png''))
     = Inr (False, ''Skipped (already 3840px): edge.png'')"
  by (simp add: process_image_def process_image_body_def sample_codec_def MAX_DIMENSION_def
      skipped_message_def str_nat_3840 Let_def)

lemma sample_broken:
  "fst (process_image sample_codec (Path [''pics''] ''broken.jpg''))
     = Inr (False, ''Error processing broken.jpg: cannot identify image file'')"
  by (simp add: process_image_def process_image_body_def sample_codec_def error_message_def)

lemma outcome_large:
  assumes "name p \<noteq> ''broken.jpg''" and "name p \<noteq> ''edge.png''" and "name p \<noteq> []"
  shows "outcome_of sample_codec p = Transformed"
  using assms
  by (simp add: outcome_of_def process_image_body_def sample_codec_def MAX_DIMENSION_def
      new_dimensions_7680_4320 convert_mode_def write_output_def with_suffix_def Let_def)

lemma outcome_edge: "outcome_of sample_codec (Path [''pics''] ''edge.png'') = Skipped"
  by (simp add: outcome_of_def process_image_body_def sample_codec_def MAX_DIMENSION_def Let_def)

lemma outcome_broken: "outcome_of sample_codec (Path [''pics''] ''broken.jpg'') = Failed"
  by (simp add: outcome_of_def process_image_body_def sample_codec_def)

lemma codec_sample_world: "codec (sample_world es flag) = sample_codec"
  by (simp add: sample_world_def)

lemma str_nat_3: "str_nat 3 = ''3''"
  by (simp add: str_nat.simps)

lemma str_int_8: "str_int 8 = ''8''"
  by (simp add: str_int_def str_nat.simps)

lemma str_int_minus_1: "str_int (- 1) = ''-1''"
  by (simp add: str_int_def str_nat.simps)

lemma submit_three:
  "map Submit three_files
     = [Submit (Path [''pics''] ''a.jpg''), Submit (Path [''pics''] ''broken.jpg''),
        Submit (Path [''pics''] ''edge.png'')]"
  by (simp add: three_files_def)


lemma length_three_files: "length three_files = 3"
  by (simp add: three_files_def)

lemma result_line_a:
  "result_line (sample_world es flag) (Path [''pics''] ''a.jpg'')
     = ''Resized 7680px '' @ arrow @ '' 3840px: a.jpg''"
  by (simp add: result_line_def future_result_def codec_sample_world sample_large)

lemma result_line_edge:
  "result_line (sample_world es flag) (Path [''pics''] ''edge.png'')
     = ''Skipped (already 3840px): edge.png''"
  by (simp add: result_line_def future_result_def codec_sample_world sample_edge)

lemma result_line_broken:
  "result_line (sample_world es flag) (Path [''pics''] ''broken.jpg'')
     = ''Error processing broken.jpg: cannot identify image file''"
  by (simp add: result_line_def future_result_def codec_sample_world sample_broken)

lemma was_resized_a: "was_resized (sample_world es flag) (Path [''pics''] ''a.jpg'')"
  by (simp add: was_resized_def future_result_def codec_sample_world sample_large)

lemma was_resized_edge: "\<not> was_resized (sample_world es flag) (Path [''pics''] ''edge.png'')"
  by (simp add: was_resized_def future_result_def codec_sample_world sample_edge)

lemma was_resized_broken: "\<not> was_resized (sample_world es flag) (Path [''pics''] ''broken.jpg'')"
  by (simp add: was_resized_def future_result_def codec_sample_world sample_broken)

lemma run_none_found:
  "run (sample_world [Path [''pics''] ''sub'', Path [''pics''] ''notes.txt''] flag) sample_thread
     = [Log ''Scanning folder: pics'', Log ''No supported images found.'', Finished 0 0 0]"
  by (simp add: run_no_images [OF none_found] sample_thread_eq str_path_def)

lemma run_three_files:
  "run (sample_world three_files (\<lambda>k. False)) sample_thread
     = [Log ''Scanning folder: pics'', Log ''Found 3 images. Starting processing...'',
        Log ''Using 8 worker threads.'',
        Submit (Path [''pics''] ''a.jpg''), Submit (Path [''pics''] ''broken.jpg''),
        Submit (Path [''pics''] ''edge.png''),
        Log (''Resized 7680px '' @ arrow @ '' 3840px: a.jpg''), Progress 1 3,
        Log ''Skipped (already 3840px): edge.png'', Progress 2 3,
        Log ''Error processing broken.jpg: cannot identify image file'', Progress 3 3,
        ShutdownWait, Finished 3 1 2]"
proof -
  have h: "three_files \<noteq> []" "0 < max_workers sample_thread"
    "\<forall>p\<in>set three_files. submit_error (sample_world three_files (\<lambda>k. False)) p = None"
    "\<forall>k<length three_files. \<not> is_cancelled (sample_world three_files (\<lambda>k. False)) k"
    by (simp_all add: sample_thread_eq sample_world_def three_files_def)
  show ?thesis
    using run_collecting_all [OF three_found h]
    by (simp add: three_order length_three_files started_def sample_thread_eq str_path_def
        str_nat_3 str_int_8 submit_three result_line_a result_line_edge result_line_broken
        was_resized_a was_resized_edge was_resized_broken)
qed

lemma run_three_cancelled:
  "run (sample_world three_files (\<lambda>k. 1 \<le> k)) sample_thread
     = [Log ''Scanning folder: pics'', Log ''Found 3 images. Starting processing...'',
        Log ''Using 8 worker threads.'',
        Submit (Path [''pics''] ''a.jpg''), Submit (Path [''pics''] ''broken.jpg''),
        Submit (Path [''pics''] ''edge.png''),
        Log (''Resized 7680px '' @ arrow @ '' 3840px: a.jpg''), Progress 1 3,
        CancelFutures, Log ''Processing cancelled.'', ShutdownWait, Finished 1 1 0]"
proof -
  have h: "0 < max_workers sample_thread"
    "\<forall>p\<in>set three_files. submit_error (sample_world three_files (\<lambda>k. 1 \<le> k)) p = None"
    "1 < length three_files"
    "\<forall>j<1. \<not> is_cancelled (sample_world three_files (\<lambda>k. 1 \<le> k)) j"
    "is_cancelled (sample_world three_files (\<lambda>k. 1 \<le> k)) 1"
    by (simp_all add: sample_thread_eq sample_world_def length_three_files)
  show ?thesis
    using run_collecting_cancelled [OF three_found h]
    by (simp add: three_order length_three_files started_def sample_thread_eq str_path_def
        str_nat_3 str_int_8 submit_three result_line_a was_resized_a)
qed

lemma run_body_bad_thread:
  "run_body (sample_world three_files (\<lambda>k. False)) bad_thread
     = ([Log ''Scanning folder: pics'', Log ''Found 3 images. Starting processing...'',
         Log ''Using -1 worker threads.''],
        Some (Exception ''max_workers must be greater than 0''))"
  by (simp add: run_body_def three_found bad_thread_eq length_three_files str_path_def
      str_nat_3 str_int_minus_1)

lemma run_bad_thread:
  "run (sample_world three_files (\<lambda>k. False)) bad_thread
     = [Log ''Scanning folder: pics'', Log ''Found 3 images. Starting processing...'',
        Log ''Using -1 worker threads.'',
        Log ''Fatal error: max_workers must be greater than 0'',
        Log ''Traceback (most recent call last): max_workers must be greater than 0'',
        Finished 0 0 0]"
  by (simp add: run_def run_body_bad_thread) (simp add: sample_world_def)

subsection \<open>The summary of a run\<close>

lemma last_run_collecting:
  assumes "find_images w (folder_path t) = Inr images" and "images \<noteq> []"
    and "0 < max_workers t" and "\<forall>p\<in>set images. submit_error w p = None"
  shows "last (run w t)
     = Finished (length (collected w 0 (as_completed w images)))
         (length (filter (\<lambda>p. outcome_of (codec w) p = Transformed)
                    (collected w 0 (as_completed w images))))
         (length (filter (\<lambda>p. outcome_of (codec w) p = Skipped)
                    (collected w 0 (as_completed w images)))
          + length (filter (\<lambda>p. outcome_of (codec w) p = Failed)
                      (collected w 0 (as_completed w images))))"
proof -
  have sub: "snd (submit_all w images) = None" using submit_all_ok [OF assms(4)] by simp
  show ?thesis
    using run_collecting [OF assms(1-3) sub]
    by (simp add: length_filter_resized length_filter_not_resized)
qed

lemma last_run_all:
  assumes "find_images w (folder_path t) = Inr images" and "images \<noteq> []"
    and "0 < max_workers t" and "\<forall>p\<in>set images. submit_error w p = None"
    and "\<forall>k<length images. \<not> is_cancelled w k"
  shows "last (run w t)
     = Finished (length images)
         (length (filter (\<lambda>p. outcome_of (codec w) p = Transformed) images))
         (length (filter (\<lambda>p. outcome_of (codec w) p = Skipped) images)
          + length (filter (\<lambda>p. outcome_of (codec w) p = Failed) images))"
proof -
  have all: "collected w 0 (as_completed w images) = as_completed w images"
    using assms(5) collected_all [of "as_completed w images" w 0]
    by (simp add: length_as_completed)
  have m: "length (filter P (as_completed w images)) = length (filter P images)" for P
    by (rule length_filter_mset) (rule mset_as_completed)
  show ?thesis
    using last_run_collecting [OF assms(1-4)] by (simp add: all m length_as_completed)
qed

lemma progress_run_states:
  assumes "find_images w (folder_path t) = Inr images" and "images \<noteq> []"
    and "0 < max_workers t" and "\<forall>p\<in>set images. submit_error w p = None"
  shows "progress_events (run w t)
     = map (\<lambda>c. (processed_count c, length images))
         (loop_states w (length images) (as_completed w images)
            \<lparr>processed_count = 0, total_resized = 0, total_skipped = 0\<rparr>)"
proof -
  have sub: "snd (submit_all w images) = None" using submit_all_ok [OF assms(4)] by simp
  have "progress_events (run w t)
      = progress_events (fst (collect w (length images) (as_completed w images)
            \<lparr>processed_count = 0, total_resized = 0, total_skipped = 0\<rparr>))"
    by (simp add: progress_run_collecting [OF assms(1-3) sub] progress_collect)
  then show ?thesis by (simp add: progress_collect_states)
qed

subsection \<open>The terminal event\<close>

text \<open>
  Claim C4. Every run emits \<^verbatim>\<open>finished\<close> exactly once, as its last action. A run that
  finds no file emits it at once, with the three counters at zero, after the two log
  lines. A run that an exception cuts short emits it with the three counters at zero
  after the two lines of the fatal error, and had not emitted it before. A run that
  collects every result emits it after the progress event of the last result, when it
  has left the pool; a cancelled run emits it after the cancellation line.
\<close>

theorem finished_fires_exactly_once:
  "(\<exists>pre a r s. run w t = pre @ [Finished a r s] \<and> filter is_Finished pre = [])
   \<and> (find_images w (folder_path t) = Inr [] \<longrightarrow>
        run w t = [Log (''Scanning folder: '' @ str_path (folder_path t)),
                   Log ''No supported images found.'', Finished 0 0 0])
   \<and> (\<forall>e. snd (run_body w t) = Some e \<longrightarrow>
        run w t = fst (run_body w t)
                    @ [Log (''Fatal error: '' @ str e), Log (format_exc w e), Finished 0 0 0]
        \<and> filter is_Finished (fst (run_body w t)) = [])
   \<and> (\<forall>images. find_images w (folder_path t) = Inr images \<and> images \<noteq> []
          \<and> 0 < max_workers t \<and> (\<forall>p\<in>set images. submit_error w p = None) \<longrightarrow>
        ((\<forall>k<length images. \<not> is_cancelled w k) \<longrightarrow>
           run w t = started t (length images) @ map Submit images
             @ loop_events w (length images) 0 (as_completed w images)
             @ [ShutdownWait,
                Finished (length images)
                  (length (filter (was_resized w) (as_completed w images)))
                  (length (filter (\<lambda>p. \<not> was_resized w p) (as_completed w images)))])
        \<and> (\<forall>k<length images. (\<forall>j<k. \<not> is_cancelled w j) \<and> is_cancelled w k \<longrightarrow>
           run w t = started t (length images) @ map Submit images
             @ loop_events w (length images) 0 (take k (as_completed w images))
             @ [CancelFutures, Log ''Processing cancelled.'', ShutdownWait,
                Finished k
                  (length (filter (was_resized w) (take k (as_completed w images))))
                  (length (filter (\<lambda>p. \<not> was_resized w p)
                             (take k (as_completed w images))))]))"
proof (intro conjI allI impI)
  show "\<exists>pre a r s. run w t = pre @ [Finished a r s] \<and> filter is_Finished pre = []"
    using run_summary [of w t] by blast
next
  assume "find_images w (folder_path t) = Inr []"
  then show "run w t = [Log (''Scanning folder: '' @ str_path (folder_path t)),
                        Log ''No supported images found.'', Finished 0 0 0]"
    by (rule run_no_images)
next
  fix e
  assume "snd (run_body w t) = Some e"
  then show "run w t = fst (run_body w t)
                    @ [Log (''Fatal error: '' @ str e), Log (format_exc w e), Finished 0 0 0]"
    by (rule run_body_fatal)
next
  fix e
  assume "snd (run_body w t) = Some e"
  then have r: "run w t = (fst (run_body w t)
                    @ [Log (''Fatal error: '' @ str e), Log (format_exc w e)]) @ [Finished 0 0 0]"
    by (simp add: run_body_fatal)
  obtain pre a r' s where p: "run w t = pre @ [Finished a r' s]" "filter is_Finished pre = []"
    using run_summary [of w t] by blast
  from r p(1) have "pre = fst (run_body w t)
                    @ [Log (''Fatal error: '' @ str e), Log (format_exc w e)]"
    by simp
  with p(2) show "filter is_Finished (fst (run_body w t)) = []" by simp
next
  fix images
  assume h: "find_images w (folder_path t) = Inr images \<and> images \<noteq> []
          \<and> 0 < max_workers t \<and> (\<forall>p\<in>set images. submit_error w p = None)"
  assume "\<forall>k<length images. \<not> is_cancelled w k"
  with h show "run w t = started t (length images) @ map Submit images
             @ loop_events w (length images) 0 (as_completed w images)
             @ [ShutdownWait,
                Finished (length images)
                  (length (filter (was_resized w) (as_completed w images)))
                  (length (filter (\<lambda>p. \<not> was_resized w p) (as_completed w images)))]"
    using run_collecting_all [of w t images] by blast
next
  fix images k
  assume h: "find_images w (folder_path t) = Inr images \<and> images \<noteq> []
          \<and> 0 < max_workers t \<and> (\<forall>p\<in>set images. submit_error w p = None)"
  assume "k < length images" and "(\<forall>j<k. \<not> is_cancelled w j) \<and> is_cancelled w k"
  with h show "run w t = started t (length images) @ map Submit images
             @ loop_events w (length images) 0 (take k (as_completed w images))
             @ [CancelFutures, Log ''Processing cancelled.'', ShutdownWait,
                Finished k
                  (length (filter (was_resized w) (take k (as_completed w images))))
                  (length (filter (\<lambda>p. \<not> was_resized w p)
                             (take k (as_completed w images))))]"
    using run_collecting_cancelled [of w t images k] by blast
qed

theorem finished_fires_exactly_once_witness:
  "find_images (sample_world [Path [''pics''] ''sub'', Path [''pics''] ''notes.txt''] (\<lambda>k. False))
       (folder_path sample_thread) = Inr []
   \<and> run (sample_world [Path [''pics''] ''sub'', Path [''pics''] ''notes.txt''] (\<lambda>k. False))
         sample_thread
       = [Log ''Scanning folder: pics'', Log ''No supported images found.'', Finished 0 0 0]
   \<and> snd (run_body (sample_world three_files (\<lambda>k. False)) bad_thread)
       = Some (Exception ''max_workers must be greater than 0'')
   \<and> run (sample_world three_files (\<lambda>k. False)) bad_thread
       = [Log ''Scanning folder: pics'', Log ''Found 3 images. Starting processing...'',
          Log ''Using -1 worker threads.'',
          Log ''Fatal error: max_workers must be greater than 0'',
          Log ''Traceback (most recent call last): max_workers must be greater than 0'',
          Finished 0 0 0]
   \<and> find_images (sample_world three_files (\<lambda>k. False)) (folder_path sample_thread)
       = Inr three_files
   \<and> 0 < max_workers sample_thread
   \<and> run (sample_world three_files (\<lambda>k. False)) sample_thread
       = [Log ''Scanning folder: pics'', Log ''Found 3 images. Starting processing...'',
          Log ''Using 8 worker threads.'',
          Submit (Path [''pics''] ''a.jpg''), Submit (Path [''pics''] ''broken.jpg''),
          Submit (Path [''pics''] ''edge.png''),
          Log (''Resized 7680px '' @ arrow @ '' 3840px: a.jpg''), Progress 1 3,
          Log ''Skipped (already 3840px): edge.png'', Progress 2 3,
          Log ''Error processing broken.jpg: cannot identify image file'', Progress 3 3,
          ShutdownWait, Finished 3 1 2]
   \<and> is_cancelled (sample_world three_files (\<lambda>k. 1 \<le> k)) 1
   \<and> run (sample_world three_files (\<lambda>k. 1 \<le> k)) sample_thread
       = [Log ''Scanning folder: pics'', Log ''Found 3 images. Starting processing...'',
          Log ''Using 8 worker threads.'',
          Submit (Path [''pics''] ''a.jpg''), Submit (Path [''pics''] ''broken.jpg''),
          Submit (Path [''pics''] ''edge.png''),
          Log (''Resized 7680px '' @ arrow @ '' 3840px: a.jpg''), Progress 1 3,
          CancelFutures, Log ''Processing cancelled.'', ShutdownWait, Finished 1 1 0]"
proof -
  let ?none = "sample_world [Path [''pics''] ''sub'', Path [''pics''] ''notes.txt''] (\<lambda>k. False)"
  let ?all = "sample_world three_files (\<lambda>k. False)"
  let ?cut = "sample_world three_files (\<lambda>k. 1 \<le> k)"
  have zero: "run ?none sample_thread
       = [Log ''Scanning folder: pics'', Log ''No supported images found.'', Finished 0 0 0]"
    using finished_fires_exactly_once [of ?none sample_thread]
    by (simp add: none_found sample_thread_eq str_path_def)
  have fatal: "run ?all bad_thread
       = [Log ''Scanning folder: pics'', Log ''Found 3 images. Starting processing...'',
          Log ''Using -1 worker threads.'',
          Log ''Fatal error: max_workers must be greater than 0'',
          Log ''Traceback (most recent call last): max_workers must be greater than 0'',
          Finished 0 0 0]"
    using finished_fires_exactly_once [of ?all bad_thread]
    by (simp add: run_body_bad_thread) (simp add: sample_world_def)
  have h: "three_files \<noteq> []" "0 < max_workers sample_thread"
    "\<forall>p\<in>set three_files. submit_error ?all p = None"
    "\<forall>k<length three_files. \<not> is_cancelled ?all k"
    "\<forall>p\<in>set three_files. submit_error ?cut p = None"
    "1 < length three_files" "\<forall>j<1. \<not> is_cancelled ?cut j" "is_cancelled ?cut 1"
    by (simp_all add: sample_thread_eq sample_world_def three_files_def)
  have "run ?all sample_thread = started sample_thread (length three_files) @ map Submit three_files
             @ loop_events ?all (length three_files) 0 (as_completed ?all three_files)
             @ [ShutdownWait,
                Finished (length three_files)
                  (length (filter (was_resized ?all) (as_completed ?all three_files)))
                  (length (filter (\<lambda>p. \<not> was_resized ?all p) (as_completed ?all three_files)))]"
    using finished_fires_exactly_once [of ?all sample_thread] three_found [of "\<lambda>k. False"] h(1-4)
    by blast
  then have full: "run ?all sample_thread
       = [Log ''Scanning folder: pics'', Log ''Found 3 images. Starting processing...'',
          Log ''Using 8 worker threads.'',
          Submit (Path [''pics''] ''a.jpg''), Submit (Path [''pics''] ''broken.jpg''),
          Submit (Path [''pics''] ''edge.png''),
          Log (''Resized 7680px '' @ arrow @ '' 3840px: a.jpg''), Progress 1 3,
          Log ''Skipped (already 3840px): edge.png'', Progress 2 3,
          Log ''Error processing broken.jpg: cannot identify image file'', Progress 3 3,
          ShutdownWait, Finished 3 1 2]"
    by (simp add: three_order length_three_files started_def sample_thread_eq str_path_def
        str_nat_3 str_int_8 submit_three result_line_a result_line_edge result_line_broken
        was_resized_a was_resized_edge was_resized_broken)
  have "run ?cut sample_thread = started sample_thread (length three_files) @ map Submit three_files
             @ loop_events ?cut (length three_files) 0 (take 1 (as_completed ?cut three_files))
             @ [CancelFutures, Log ''Processing cancelled.'', ShutdownWait,
                Finished 1
                  (length (filter (was_resized ?cut) (take 1 (as_completed ?cut three_files))))
                  (length (filter (\<lambda>p. \<not> was_resized ?cut p)
                             (take 1 (as_completed ?cut three_files))))]"
    using finished_fires_exactly_once [of ?cut sample_thread] three_found [of "\<lambda>k. 1 \<le> k"]
      h(1,2,5-8)
    by blast
  then have cut: "run ?cut sample_thread
       = [Log ''Scanning folder: pics'', Log ''Found 3 images. Starting processing...'',
          Log ''Using 8 worker threads.'',
          Submit (Path [''pics''] ''a.jpg''), Submit (Path [''pics''] ''broken.jpg''),
          Submit (Path [''pics''] ''edge.png''),
          Log (''Resized 7680px '' @ arrow @ '' 3840px: a.jpg''), Progress 1 3,
          CancelFutures, Log ''Processing cancelled.'', ShutdownWait, Finished 1 1 0]"
    by (simp add: three_order length_three_files started_def sample_thread_eq str_path_def
        str_nat_3 str_int_8 submit_three result_line_a was_resized_a)
  show ?thesis
    using zero fatal full cut h(2,8)
    by (simp add: none_found three_found run_body_bad_thread)
qed

subsection \<open>Runs that find no image\<close>

lemma find_images_none:
  assumes "rglob w root = Inr entries"
    and "\<forall>p\<in>set entries. \<not> (is_file w p \<and> lower (suffix_of p) \<in> SUPPORTED_FORMATS w)"
  shows "find_images w root = Inr []"
  using assms by (simp add: find_images_def filter_empty_conv)

text \<open>
  Claim C7. When no entry under the root is a file with a supported suffix, the run
  logs the scan and the absence of images and emits \<^verbatim>\<open>finished(0, 0, 0)\<close> at once: it
  submits nothing and reports no progress.
\<close>

theorem no_images_finishes_at_once:
  assumes "rglob w (folder_path t) = Inr entries"
    and "\<forall>p\<in>set entries. \<not> (is_file w p \<and> lower (suffix_of p) \<in> SUPPORTED_FORMATS w)"
  shows "find_images w (folder_path t) = Inr []
       \<and> run w t = [Log (''Scanning folder: '' @ str_path (folder_path t)),
                    Log ''No supported images found.'', Finished 0 0 0]"
  using find_images_none [OF assms] by (simp add: run_no_images)

theorem no_images_finishes_at_once_witness:
  "rglob (sample_world [Path [''pics''] ''sub'', Path [''pics''] ''notes.txt''] (\<lambda>k. False))
       (folder_path sample_thread)
     = Inr [Path [''pics''] ''sub'', Path [''pics''] ''notes.txt'']
   \<and> \<not> is_file (sample_world [Path [''pics''] ''sub'', Path [''pics''] ''notes.txt''] (\<lambda>k. False))
           (Path [''pics''] ''sub'')
   \<and> lower (suffix_of (Path [''pics''] ''notes.txt'')) = ''.txt''
   \<and> ''.txt'' \<notin> SUPPORTED_FORMATS
                    (sample_world [Path [''pics''] ''sub'', Path [''pics''] ''notes.txt''] (\<lambda>k. False))
   \<and> find_images (sample_world [Path [''pics''] ''sub'', Path [''pics''] ''notes.txt''] (\<lambda>k. False))
         (folder_path sample_thread) = Inr []
   \<and> run (sample_world [Path [''pics''] ''sub'', Path [''pics''] ''notes.txt''] (\<lambda>k. False)) sample_thread
       = [Log ''Scanning folder: pics'', Log ''No supported images found.'', Finished 0 0 0]"
  using no_images_finishes_at_once [of "sample_world [Path [''pics''] ''sub'', Path [''pics''] ''notes.txt''] (\<lambda>k. False)"
      sample_thread "[Path [''pics''] ''sub'', Path [''pics''] ''notes.txt'']"]
  by (simp add: sample_world_def sample_thread_eq SUPPORTED_FORMATS_def suffix_of_notes lower_txt
      str_path_def)

subsection \<open>Progress and cancellation of a run\<close>



text \<open>
  Claim C2. When the flag is first read as set at the check before result \<open>k + 1\<close>,
  with \<open>k\<close> smaller than the number of files, the run has processed exactly the first
  \<open>k\<close> completed results; it then calls \<^verbatim>\<open>shutdown(wait=False, cancel_futures=True)\<close>,
  logs the cancellation line, leaves the pool and emits \<^verbatim>\<open>finished\<close> with the counters
  of those \<open>k\<close> results, so the completed count is below the number of files. The run
  is a finite list of actions: it ends.
\<close>

theorem cancellation_stops_the_collection:
  assumes "find_images w (folder_path t) = Inr images" and "0 < max_workers t"
    and "\<forall>p\<in>set images. submit_error w p = None"
    and "k < length images" and "\<forall>j<k. \<not> is_cancelled w j" and "is_cancelled w k"
  shows "run w t = started t (length images) @ map Submit images
           @ loop_events w (length images) 0 (take k (as_completed w images))
           @ [CancelFutures, Log ''Processing cancelled.'', ShutdownWait,
              Finished k (length (filter (was_resized w) (take k (as_completed w images))))
                (length (filter (\<lambda>p. \<not> was_resized w p) (take k (as_completed w images))))]
       \<and> progress_events (run w t) = map (\<lambda>i. (i, length images)) [1..<Suc k]
       \<and> reported (run w t) = map (result_line w) (take k (as_completed w images))
       \<and> k < length images"
proof -
  have ne: "images \<noteq> []" using assms(4) by auto
  have sub: "snd (submit_all w images) = None" using submit_all_ok [OF assms(3)] by simp
  have kk: "k < length (as_completed w images)" using assms(4) by (simp add: length_as_completed)
  have col: "collected w 0 (as_completed w images) = take k (as_completed w images)"
    using collected_cancel [of k "as_completed w images" w 0] kk assms(5,6) by simp
  have len: "length (take k (as_completed w images)) = k" using kk by simp
  show ?thesis
    using run_collecting [OF assms(1) ne assms(2) sub]
      progress_run_collecting [OF assms(1) ne assms(2) sub]
      reported_run_collecting [OF assms(1) ne assms(2) sub] assms(4) kk
    by (simp add: col len)
qed

theorem cancellation_stops_the_collection_witness:
  "find_images (sample_world three_files (\<lambda>k. 1 \<le> k)) (folder_path sample_thread) = Inr three_files
   \<and> 0 < max_workers sample_thread
   \<and> submit_error (sample_world three_files (\<lambda>k. 1 \<le> k)) = (\<lambda>p. None)
   \<and> 1 < length three_files
   \<and> \<not> is_cancelled (sample_world three_files (\<lambda>k. 1 \<le> k)) 0
   \<and> is_cancelled (sample_world three_files (\<lambda>k. 1 \<le> k)) 1
   \<and> run (sample_world three_files (\<lambda>k. 1 \<le> k)) sample_thread
       = [Log ''Scanning folder: pics'', Log ''Found 3 images. Starting processing...'',
          Log ''Using 8 worker threads.'',
          Submit (Path [''pics''] ''a.jpg''), Submit (Path [''pics''] ''broken.jpg''),
          Submit (Path [''pics''] ''edge.png''),
          Log (''Resized 7680px '' @ arrow @ '' 3840px: a.jpg''), Progress 1 3,
          CancelFutures, Log ''Processing cancelled.'', ShutdownWait, Finished 1 1 0]
   \<and> progress_events (run (sample_world three_files (\<lambda>k. 1 \<le> k)) sample_thread) = [(1, 3)]
   \<and> reported (run (sample_world three_files (\<lambda>k. 1 \<le> k)) sample_thread)
       = [''Resized 7680px '' @ arrow @ '' 3840px: a.jpg'']"
proof -
  let ?cut = "sample_world three_files (\<lambda>k. 1 \<le> k)"
  have h: "0 < max_workers sample_thread"
    "\<forall>p\<in>set three_files. submit_error ?cut p = None"
    "1 < length three_files"
    "\<forall>j<1. \<not> is_cancelled ?cut j"
    "is_cancelled ?cut 1"
    by (simp_all add: sample_thread_eq sample_world_def length_three_files)
  have e: "submit_error ?cut = (\<lambda>p. None)" "\<not> is_cancelled ?cut 0"
    by (simp_all add: sample_world_def)
  note c = cancellation_stops_the_collection [OF three_found h]
  have r: "run ?cut sample_thread
       = [Log ''Scanning folder: pics'', Log ''Found 3 images. Starting processing...'',
          Log ''Using 8 worker threads.'',
          Submit (Path [''pics''] ''a.jpg''), Submit (Path [''pics''] ''broken.jpg''),
          Submit (Path [''pics''] ''edge.png''),
          Log (''Resized 7680px '' @ arrow @ '' 3840px: a.jpg''), Progress 1 3,
          CancelFutures, Log ''Processing cancelled.'', ShutdownWait, Finished 1 1 0]"
    using c [THEN conjunct1]
    by (simp add: three_order length_three_files started_def sample_thread_eq str_path_def
        str_nat_3 str_int_8 result_line_a was_resized_a submit_three)
  have p: "progress_events (run ?cut sample_thread) = [(1, 3)]"
    using c [THEN conjunct2, THEN conjunct1] by (simp add: length_three_files)
  have q: "reported (run ?cut sample_thread) = [''Resized 7680px '' @ arrow @ '' 3840px: a.jpg'']"
    using c [THEN conjunct2, THEN conjunct2, THEN conjunct1]
    by (simp add: three_order result_line_a)
  show ?thesis
    using r p q h(1,3,5) e by (simp add: three_found)
qed

subsection \<open>The counters of a run\<close>

lemma progress_run_all:
  assumes "find_images w (folder_path t) = Inr images" and "images \<noteq> []"
    and "0 < max_workers t" and "\<forall>p\<in>set images. submit_error w p = None"
    and "\<forall>k<length images. \<not> is_cancelled w k"
  shows "progress_events (run w t) = map (\<lambda>i. (i, length images)) [1..<Suc (length images)]"
proof -
  have sub: "snd (submit_all w images) = None" using submit_all_ok [OF assms(4)] by simp
  have all: "collected w 0 (as_completed w images) = as_completed w images"
    using assms(5) collected_all [of "as_completed w images" w 0]
    by (simp add: length_as_completed)
  show ?thesis
    using progress_run_collecting [OF assms(1-3) sub] by (simp add: all length_as_completed)
qed

lemma reported_run_all:
  assumes "find_images w (folder_path t) = Inr images" and "images \<noteq> []"
    and "0 < max_workers t" and "\<forall>p\<in>set images. submit_error w p = None"
    and "\<forall>k<length images. \<not> is_cancelled w k"
  shows "reported (run w t) = map (result_line w) (as_completed w images)"
proof -
  have sub: "snd (submit_all w images) = None" using submit_all_ok [OF assms(4)] by simp
  have all: "collected w 0 (as_completed w images) = as_completed w images"
    using assms(5) collected_all [of "as_completed w images" w 0]
    by (simp add: length_as_completed)
  show ?thesis
    using reported_run_collecting [OF assms(1-3) sub] by (simp add: all)
qed

lemma set_as_completed: "set (as_completed w images) = set images"
  by (simp add: as_completed_def)

text \<open>
  Claim C10. Whatever \<^verbatim>\<open>finished\<close> carries, its first counter is the sum of the other
  two. In a run that reaches the loop, the progress events are emitted at the states
  of the counters listed by \<open>loop_states\<close>, each of which satisfies
  \<open>processed_count = total_resized + total_skipped\<close>, and the summary counts as resized
  the transformed files among the results processed, and as skipped the skipped and
  the failed ones together. One result adds one to \<open>processed_count\<close> and one to
  \<open>total_resized\<close> if the file was transformed, to \<open>total_skipped\<close> otherwise: there
  is no counter of failures.
\<close>

theorem completed_is_resized_plus_skipped:
  "(\<forall>a r s. Finished a r s \<in> set (run w t) \<longrightarrow> a = r + s)
   \<and> (\<forall>images. find_images w (folder_path t) = Inr images \<and> images \<noteq> []
          \<and> 0 < max_workers t \<and> (\<forall>p\<in>set images. submit_error w p = None) \<longrightarrow>
        progress_events (run w t)
          = map (\<lambda>c. (processed_count c, length images))
              (loop_states w (length images) (as_completed w images)
                 \<lparr>processed_count = 0, total_resized = 0, total_skipped = 0\<rparr>)
        \<and> (\<forall>c\<in>set (loop_states w (length images) (as_completed w images)
                       \<lparr>processed_count = 0, total_resized = 0, total_skipped = 0\<rparr>).
              processed_count c = total_resized c + total_skipped c)
        \<and> last (run w t)
            = Finished (length (collected w 0 (as_completed w images)))
                (length (filter (\<lambda>p. outcome_of (codec w) p = Transformed)
                           (collected w 0 (as_completed w images))))
                (length (filter (\<lambda>p. outcome_of (codec w) p = Skipped)
                           (collected w 0 (as_completed w images)))
                 + length (filter (\<lambda>p. outcome_of (codec w) p = Failed)
                             (collected w 0 (as_completed w images)))))
   \<and> (\<forall>N f c. snd (handle_result w N f c)
        = (if outcome_of (codec w) f = Transformed
           then c\<lparr>processed_count := processed_count c + 1,
                  total_resized := total_resized c + 1\<rparr>
           else c\<lparr>processed_count := processed_count c + 1,
                  total_skipped := total_skipped c + 1\<rparr>))"
proof (intro conjI allI impI)
  fix a r s
  assume f: "Finished a r s \<in> set (run w t)"
  obtain pre a' r' s' where p: "run w t = pre @ [Finished a' r' s']"
      "filter is_Finished pre = []" "a' = r' + s'"
    using run_summary [of w t] by blast
  have "Finished a r s \<notin> set pre" using p(2) by (rule no_Finished_in)
  with f p(1) have "a = a' \<and> r = r' \<and> s = s'" by simp
  with p(3) show "a = r + s" by simp
next
  fix images
  assume h: "find_images w (folder_path t) = Inr images \<and> images \<noteq> []
          \<and> 0 < max_workers t \<and> (\<forall>p\<in>set images. submit_error w p = None)"
  then show "progress_events (run w t)
          = map (\<lambda>c. (processed_count c, length images))
              (loop_states w (length images) (as_completed w images)
                 \<lparr>processed_count = 0, total_resized = 0, total_skipped = 0\<rparr>)"
    using progress_run_states [of w t images] by blast
next
  fix images
  show "\<forall>c\<in>set (loop_states w (length images) (as_completed w images)
                       \<lparr>processed_count = 0, total_resized = 0, total_skipped = 0\<rparr>).
              processed_count c = total_resized c + total_skipped c"
    by (rule loop_states_invariant) simp
next
  fix images
  assume h: "find_images w (folder_path t) = Inr images \<and> images \<noteq> []
          \<and> 0 < max_workers t \<and> (\<forall>p\<in>set images. submit_error w p = None)"
  then show "last (run w t)
            = Finished (length (collected w 0 (as_completed w images)))
                (length (filter (\<lambda>p. outcome_of (codec w) p = Transformed)
                           (collected w 0 (as_completed w images))))
                (length (filter (\<lambda>p. outcome_of (codec w) p = Skipped)
                           (collected w 0 (as_completed w images)))
                 + length (filter (\<lambda>p. outcome_of (codec w) p = Failed)
                             (collected w 0 (as_completed w images))))"
    using last_run_collecting [of w t images] by blast
next
  fix N f c
  show "snd (handle_result w N f c)
        = (if outcome_of (codec w) f = Transformed
           then c\<lparr>processed_count := processed_count c + 1,
                  total_resized := total_resized c + 1\<rparr>
           else c\<lparr>processed_count := processed_count c + 1,
                  total_skipped := total_skipped c + 1\<rparr>)"
    by (rule handle_result_counters)
qed

lemma loop_states_three:
  "loop_states (sample_world three_files (\<lambda>k. False)) 3
       (as_completed (sample_world three_files (\<lambda>k. False)) three_files)
       \<lparr>processed_count = 0, total_resized = 0, total_skipped = 0\<rparr>
     = [\<lparr>processed_count = 1, total_resized = 1, total_skipped = 0\<rparr>,
        \<lparr>processed_count = 2, total_resized = 1, total_skipped = 1\<rparr>,
        \<lparr>processed_count = 3, total_resized = 1, total_skipped = 2\<rparr>]"
proof -
  have e: "is_cancelled (sample_world three_files (\<lambda>k. False)) = (\<lambda>k. False)"
    by (simp add: sample_world_def)
  show ?thesis
    by (simp add: three_order e handle_result_eq count_results_def was_resized_a
        was_resized_edge was_resized_broken)
qed

theorem completed_is_resized_plus_skipped_witness:
  "Finished 3 1 2 \<in> set (run (sample_world three_files (\<lambda>k. False)) sample_thread)
   \<and> (3::nat) = 1 + 2
   \<and> find_images (sample_world three_files (\<lambda>k. False)) (folder_path sample_thread)
       = Inr three_files
   \<and> three_files \<noteq> [] \<and> 0 < max_workers sample_thread
   \<and> submit_error (sample_world three_files (\<lambda>k. False)) = (\<lambda>p. None)
   \<and> progress_events (run (sample_world three_files (\<lambda>k. False)) sample_thread)
       = [(1, 3), (2, 3), (3, 3)]
   \<and> loop_states (sample_world three_files (\<lambda>k. False)) 3
         (as_completed (sample_world three_files (\<lambda>k. False)) three_files)
         \<lparr>processed_count = 0, total_resized = 0, total_skipped = 0\<rparr>
       = [\<lparr>processed_count = 1, total_resized = 1, total_skipped = 0\<rparr>,
          \<lparr>processed_count = 2, total_resized = 1, total_skipped = 1\<rparr>,
          \<lparr>processed_count = 3, total_resized = 1, total_skipped = 2\<rparr>]
   \<and> last (run (sample_world three_files (\<lambda>k. False)) sample_thread) = Finished 3 1 2
   \<and> outcome_of (codec (sample_world three_files (\<lambda>k. False))) (Path [''pics''] ''broken.jpg'')
       = Failed
   \<and> snd (handle_result (sample_world three_files (\<lambda>k. False)) 3 (Path [''pics''] ''broken.jpg'')
            \<lparr>processed_count = 2, total_resized = 1, total_skipped = 1\<rparr>)
       = \<lparr>processed_count = 3, total_resized = 1, total_skipped = 2\<rparr>"
proof -
  let ?w = "sample_world three_files (\<lambda>k. False)"
  note T = completed_is_resized_plus_skipped [of ?w sample_thread]
  have h: "find_images ?w (folder_path sample_thread) = Inr three_files \<and> three_files \<noteq> []
          \<and> 0 < max_workers sample_thread \<and> (\<forall>p\<in>set three_files. submit_error ?w p = None)"
  proof (intro conjI)
    show "find_images ?w (folder_path sample_thread) = Inr three_files" by (rule three_found)
    show "three_files \<noteq> []" by (simp add: three_files_def)
    show "0 < max_workers sample_thread" by (simp add: sample_thread_eq)
    show "\<forall>p\<in>set three_files. submit_error ?w p = None" by (simp add: sample_world_def)
  qed
  have e: "submit_error ?w = (\<lambda>p. None)" "is_cancelled ?w = (\<lambda>k. False)"
    by (simp_all add: sample_world_def)
  have m: "Finished 3 1 2 \<in> set (run ?w sample_thread)"
    by (simp add: run_three_files)
  have s: "(3::nat) = 1 + 2"
    using T [THEN conjunct1] m by blast
  have p: "progress_events (run ?w sample_thread)
      = map (\<lambda>c. (processed_count c, length three_files))
          (loop_states ?w (length three_files) (as_completed ?w three_files)
             \<lparr>processed_count = 0, total_resized = 0, total_skipped = 0\<rparr>)"
    using T [THEN conjunct2, THEN conjunct1] h by blast
  have l: "last (run ?w sample_thread)
      = Finished (length (collected ?w 0 (as_completed ?w three_files)))
          (length (filter (\<lambda>p. outcome_of (codec ?w) p = Transformed)
                     (collected ?w 0 (as_completed ?w three_files))))
          (length (filter (\<lambda>p. outcome_of (codec ?w) p = Skipped)
                     (collected ?w 0 (as_completed ?w three_files)))
           + length (filter (\<lambda>p. outcome_of (codec ?w) p = Failed)
                       (collected ?w 0 (as_completed ?w three_files))))"
    using T [THEN conjunct2, THEN conjunct1] h by blast
  have k: "snd (handle_result ?w 3 (Path [''pics''] ''broken.jpg'')
            \<lparr>processed_count = 2, total_resized = 1, total_skipped = 1\<rparr>)
       = \<lparr>processed_count = 3, total_resized = 1, total_skipped = 2\<rparr>"
    using T [THEN conjunct2, THEN conjunct2]
    by (simp add: codec_sample_world outcome_broken)
  have p': "progress_events (run ?w sample_thread) = [(1, 3), (2, 3), (3, 3)]"
    using p by (simp add: length_three_files loop_states_three)
  have l': "last (run ?w sample_thread) = Finished 3 1 2"
    using l
    by (simp add: three_order e codec_sample_world outcome_large outcome_edge outcome_broken)
  have o: "outcome_of (codec ?w) (Path [''pics''] ''broken.jpg'') = Failed"
    by (simp add: codec_sample_world outcome_broken)
  show ?thesis
    using m s h e(1) p' loop_states_three l' o k by blast
qed

subsection \<open>A batch with one unreadable file\<close>

lemma length_ten_files: "length ten_files = 10"
  by (simp add: ten_files_def)

lemma ten_suffixes:
  "suffix_of (Path [''pics''] ''f1.jpg'') = ''.jpg''"
  "suffix_of (Path [''pics''] ''f2.jpg'') = ''.jpg''"
  "suffix_of (Path [''pics''] ''f3.jpg'') = ''.jpg''"
  "suffix_of (Path [''pics''] ''f4.jpg'') = ''.jpg''"
  "suffix_of (Path [''pics''] ''f6.jpg'') = ''.jpg''"
  "suffix_of (Path [''pics''] ''f7.jpg'') = ''.jpg''"
  "suffix_of (Path [''pics''] ''f8.jpg'') = ''.jpg''"
  "suffix_of (Path [''pics''] ''f9.jpg'') = ''.jpg''"
  "suffix_of (Path [''pics''] ''f10.jpg'') = ''.jpg''"
  by (simp_all add: suffix_of_def rfind_def upt_rec)

lemma ten_found: "find_images ten_files_world root = Inr ten_files"
  by (simp add: find_images_def ten_files_world_def sample_world_def ten_files_def
      SUPPORTED_FORMATS_def ten_suffixes suffix_of_broken_jpg lower_jpg)

lemma ten_world:
  "codec ten_files_world = sample_codec"
  "submit_error ten_files_world = (\<lambda>p. None)"
  "is_cancelled ten_files_world = (\<lambda>k. False)"
  by (simp_all add: ten_files_world_def sample_world_def)

lemma ten_transformed:
  "length (filter (\<lambda>p. outcome_of sample_codec p = Transformed) ten_files) = 9"
  by (simp add: ten_files_def outcome_large outcome_broken)

lemma ten_skipped:
  "length (filter (\<lambda>p. outcome_of sample_codec p = Skipped) ten_files) = 0"
  by (simp add: ten_files_def outcome_large outcome_broken)

lemma ten_failed:
  "length (filter (\<lambda>p. outcome_of sample_codec p = Failed) ten_files) = 1"
  by (simp add: ten_files_def outcome_large outcome_broken)

lemma ten_fifth: "ten_files ! 4 = Path [''pics''] ''broken.jpg''"
  by (simp add: ten_files_def)

lemma ten_hyps:
  "ten_files \<noteq> []" "0 < max_workers sample_thread"
  "\<forall>p\<in>set ten_files. submit_error ten_files_world p = None"
  "\<forall>k<length ten_files. \<not> is_cancelled ten_files_world k"
  by (simp_all add: ten_world sample_thread_eq) (simp add: ten_files_def)

lemma upt_1_11: "[Suc 0..<11] = [Suc 0, 2, 3, 4, 5, 6, 7, 8, 9, 10]"
  by (simp add: upt_rec)

text \<open>
  Claim C9, as the specification states it, fails on the ten files of which the fifth
  cannot be decoded: the summary of the run is \<^verbatim>\<open>finished(10, 9, 1)\<close>, with the
  unreadable file counted as skipped, where the summary of the specification counts
  no skipped file and one failed file.
\<close>

theorem summary_has_no_failed_counter:
  "last (run ten_files_world sample_thread) = Finished 10 9 1
   \<and> spec_batch_summary sample_codec ten_files
       = \<lparr>totalDiscovered = 10, totalCompleted = 10, totalTransformed = 9,
          totalSkipped = 0, totalFailed = 1\<rparr>"
proof
  show "last (run ten_files_world sample_thread) = Finished 10 9 1"
    using last_run_all [OF ten_found ten_hyps]
    by (simp add: ten_world(1) length_ten_files ten_transformed ten_skipped ten_failed)
  show "spec_batch_summary sample_codec ten_files
       = \<lparr>totalDiscovered = 10, totalCompleted = 10, totalTransformed = 9,
          totalSkipped = 0, totalFailed = 1\<rparr>"
    by (simp add: spec_batch_summary_def length_ten_files ten_transformed ten_skipped ten_failed)
qed

text \<open>
  Claim C9, amended. When ten files are found, the fifth fails and is the only one
  that fails, and the run is neither cancelled nor cut short, \<^verbatim>\<open>finished\<close> carries
  10 as the number of files processed, the number of transformed files, and the number
  of skipped files plus one: the failed file is counted as skipped, and the summary has
  no counter of failures. The progress events count from 1 to 10 and the result line
  of every file, those of files 6 to 10 included, is logged.
\<close>

theorem failed_file_is_counted_as_skipped:
  assumes "find_images w (folder_path t) = Inr images" and "length images = 10"
    and "0 < max_workers t" and "\<forall>p\<in>set images. submit_error w p = None"
    and "\<forall>k<10. \<not> is_cancelled w k"
    and "outcome_of (codec w) (images ! 4) = Failed"
    and "length (filter (\<lambda>p. outcome_of (codec w) p = Failed) images) = 1"
  shows "last (run w t)
           = Finished 10 (totalTransformed (spec_batch_summary (codec w) images))
               (totalSkipped (spec_batch_summary (codec w) images) + 1)
       \<and> totalCompleted (spec_batch_summary (codec w) images) = 10
       \<and> totalFailed (spec_batch_summary (codec w) images) = 1
       \<and> progress_events (run w t) = map (\<lambda>i. (i, 10)) [1..<11]
       \<and> length (reported (run w t)) = 10
       \<and> (\<forall>i<10. result_line w (images ! i) \<in> set (reported (run w t)))"
proof -
  have ne: "images \<noteq> []" using assms(2) by auto
  have nc: "\<forall>k<length images. \<not> is_cancelled w k" using assms(2,5) by simp
  have r: "reported (run w t) = map (result_line w) (as_completed w images)"
    by (rule reported_run_all [OF assms(1) ne assms(3,4) nc])
  have f1: "last (run w t)
           = Finished 10 (totalTransformed (spec_batch_summary (codec w) images))
               (totalSkipped (spec_batch_summary (codec w) images) + 1)"
    using last_run_all [OF assms(1) ne assms(3,4) nc] assms(2,7)
    by (simp add: spec_batch_summary_def)
  have f2: "totalCompleted (spec_batch_summary (codec w) images) = 10"
    using assms(2) by (simp add: spec_batch_summary_def)
  have f3: "totalFailed (spec_batch_summary (codec w) images) = 1"
    using assms(7) by (simp add: spec_batch_summary_def)
  have f4: "progress_events (run w t) = map (\<lambda>i. (i, 10)) [1..<11]"
    using progress_run_all [OF assms(1) ne assms(3,4) nc] by (simp only: assms(2)) simp
  have f5: "length (reported (run w t)) = 10"
    using assms(2) by (simp add: r length_as_completed)
  have f6: "\<forall>i<10. result_line w (images ! i) \<in> set (reported (run w t))"
  proof (intro allI impI)
    fix i :: nat
    assume "i < 10"
    then have "images ! i \<in> set images" using assms(2) by simp
    then show "result_line w (images ! i) \<in> set (reported (run w t))"
      by (simp add: r set_as_completed)
  qed
  show ?thesis by (intro conjI) (rule f1 f2 f3 f4 f5 f6)+
qed

theorem failed_file_is_counted_as_skipped_witness:
  "find_images ten_files_world (folder_path sample_thread) = Inr ten_files
   \<and> length ten_files = 10
   \<and> 0 < max_workers sample_thread
   \<and> submit_error ten_files_world = (\<lambda>p. None)
   \<and> is_cancelled ten_files_world = (\<lambda>k. False)
   \<and> outcome_of (codec ten_files_world) (ten_files ! 4) = Failed
   \<and> length (filter (\<lambda>p. outcome_of (codec ten_files_world) p = Failed) ten_files) = 1
   \<and> last (run ten_files_world sample_thread) = Finished 10 9 1
   \<and> progress_events (run ten_files_world sample_thread)
       = [(1, 10), (2, 10), (3, 10), (4, 10), (5, 10), (6, 10), (7, 10), (8, 10), (9, 10),
          (10, 10)]
   \<and> length (reported (run ten_files_world sample_thread)) = 10
   \<and> result_line ten_files_world (Path [''pics''] ''f6.jpg'')
       \<in> set (reported (run ten_files_world sample_thread))
   \<and> result_line ten_files_world (Path [''pics''] ''f10.jpg'')
       \<in> set (reported (run ten_files_world sample_thread))"
proof -
  have c: "\<forall>k<10. \<not> is_cancelled ten_files_world k" by (simp add: ten_world)
  have o: "outcome_of (codec ten_files_world) (ten_files ! 4) = Failed"
    by (simp add: ten_world(1) ten_fifth outcome_broken)
  have f: "length (filter (\<lambda>p. outcome_of (codec ten_files_world) p = Failed) ten_files) = 1"
    by (simp add: ten_world(1) ten_failed)
  note T = failed_file_is_counted_as_skipped
      [where w = ten_files_world and t = sample_thread and images = ten_files,
       OF ten_found length_ten_files ten_hyps(2,3) c o f]
  have l: "last (run ten_files_world sample_thread) = Finished 10 9 1"
    using T [THEN conjunct1]
    by (simp add: spec_batch_summary_def ten_world(1) ten_transformed ten_skipped)
  have p: "progress_events (run ten_files_world sample_thread)
       = [(1, 10), (2, 10), (3, 10), (4, 10), (5, 10), (6, 10), (7, 10), (8, 10), (9, 10),
          (10, 10)]"
    using T [THEN conjunct2, THEN conjunct2, THEN conjunct2, THEN conjunct1]
    by (simp add: upt_1_11)
  have n: "length (reported (run ten_files_world sample_thread)) = 10"
    using T [THEN conjunct2, THEN conjunct2, THEN conjunct2, THEN conjunct2, THEN conjunct1] .
  have a: "\<forall>i<10. result_line ten_files_world (ten_files ! i)
               \<in> set (reported (run ten_files_world sample_thread))"
    using T [THEN conjunct2, THEN conjunct2, THEN conjunct2, THEN conjunct2, THEN conjunct2] .
  have s: "result_line ten_files_world (Path [''pics''] ''f6.jpg'')
       \<in> set (reported (run ten_files_world sample_thread))"
    using a [rule_format, of 5] by (simp add: ten_files_def)
  have t: "result_line ten_files_world (Path [''pics''] ''f10.jpg'')
       \<in> set (reported (run ten_files_world sample_thread))"
    using a [rule_format, of 9] by (simp add: ten_files_def)
  show ?thesis
    by (intro conjI)
       (rule ten_found length_ten_files ten_hyps(2) ten_world(2,3) o f l p n s t)+
qed

end
